theory Spec2Isabelle
  imports Main "HOL-Library.Sublist"
begin

section \<open>Python strings\<close>

text \<open>
  A Python \<open>str\<close> is modelled as a HOL \<open>string\<close>, each \<open>char\<close> standing for
  the code point of the same number (U+0000 to U+00FF). On this range the character
  classes below are exactly Python's: \<open>str.isdigit\<close> holds for the ten ASCII digits and
  for the superscripts U+00B2, U+00B3 and U+00B9, which \<open>int()\<close> rejects with
  \<open>ValueError\<close>; \<open>str.isspace\<close> holds for U+0009..U+000D, U+001C..U+0020, U+0085 and
  U+00A0. String literals of the source that hold code points above U+007F (selectors
  and file names in other scripts) are written with the code point spelled out, as in
  \<open><U+4FDD>\<close>; they are only ever compared for equality.
\<close>

datatype exn = Exn string | BaseExn string

text \<open>
  \<open>Exn s\<close> is an exception whose class derives from \<open>Exception\<close> (\<open>s\<close> is its
  \<open>str()\<close>); \<open>BaseExn s\<close> is one that does not (\<open>KeyboardInterrupt\<close>,
  \<open>SystemExit\<close>, \<open>asyncio.CancelledError\<close>). \<open>except Exception\<close> catches the
  first kind only, a bare \<open>except:\<close> catches both.
\<close>

definition py_isdigit :: "char \<Rightarrow> bool" where
  "py_isdigit c =
     (let n = (of_char c :: nat) in (48 \<le> n \<and> n \<le> 57) \<or> n = 178 \<or> n = 179 \<or> n = 185)"

definition py_isdecimal :: "char \<Rightarrow> bool" where
  "py_isdecimal c = (let n = (of_char c :: nat) in 48 \<le> n \<and> n \<le> 57)"

definition py_isspace :: "char \<Rightarrow> bool" where
  "py_isspace c =
     (let n = (of_char c :: nat) in
        (9 \<le> n \<and> n \<le> 13) \<or> (28 \<le> n \<and> n \<le> 32) \<or> n = 133 \<or> n = 160)"

text \<open>\<open>s.strip()\<close>\<close>

definition py_strip :: "string \<Rightarrow> string" where
  "py_strip s = rev (dropWhile py_isspace (rev (dropWhile py_isspace s)))"

text \<open>\<open>sub in s\<close>\<close>

definition py_in :: "string \<Rightarrow> string \<Rightarrow> bool" where
  "py_in sub s = sublist sub s"

text \<open>
  \<open>int(s)\<close> on the strings the code passes to it: non-empty and made of \<open>isdigit\<close>
  characters only. It succeeds exactly when every character is a decimal digit and
  there are no more of them than CPython converts: \<open>sys.int_max_str_digits\<close>, 4300
  unless the interpreter is started with another limit, leading zeros counted.
  \<open>None\<close> stands for \<open>ValueError\<close>. The values are never negative, so they are
  naturals; Python's integers are unbounded, as \<open>nat\<close> is.
\<close>

definition int_max_str_digits :: nat where
  "int_max_str_digits = 4300"

definition digit_val :: "char \<Rightarrow> nat" where
  "digit_val c = of_char c - 48"

definition digits_val :: "string \<Rightarrow> nat" where
  "digits_val s = foldl (\<lambda>a c. 10 * a + digit_val c) 0 s"

definition py_int :: "string \<Rightarrow> nat option" where
  "py_int s =
     (if s \<noteq> [] \<and> list_all py_isdecimal s \<and> length s \<le> int_max_str_digits
      then Some (digits_val s) else None)"

text \<open>\<open>str(n)\<close> for a non-negative integer.\<close>

definition digit_char :: "nat \<Rightarrow> char" where
  "digit_char d = char_of (48 + d)"

fun py_str :: "nat \<Rightarrow> string" where
  "py_str n = (if n < 10 then [digit_char n] else py_str (n div 10) @ [digit_char (n mod 10)])"

declare py_str.simps [simp del]

text \<open>\<open>s[-k:]\<close> for \<open>k > 0\<close>, and \<open>s.zfill(w)\<close> on a string with no sign.\<close>

definition last_n :: "nat \<Rightarrow> string \<Rightarrow> string" where
  "last_n k s = drop (length s - k) s"

definition zfill :: "nat \<Rightarrow> string \<Rightarrow> string" where
  "zfill w s = replicate (w - length s) (CHR ''0'') @ s"

text \<open>
  \<open>s.split(sep)\<close>: the separator is searched from the left, occurrences do not overlap,
  and an empty separator raises \<open>ValueError\<close>. \<open>split_from sep cur rest\<close> is the scan
  with \<open>cur\<close> the part read so far.
\<close>

function split_from :: "string \<Rightarrow> string \<Rightarrow> string \<Rightarrow> string list" where
  "split_from sep cur [] = [cur]"
| "split_from sep cur (c # cs) =
     (if sep \<noteq> [] \<and> prefix sep (c # cs)
      then cur # split_from sep [] (drop (length sep) (c # cs))
      else split_from sep (cur @ [c]) cs)"
  by pat_completeness auto
termination
  by (relation "measure (\<lambda>(sep, cur, s). length s)") auto

definition py_split :: "string \<Rightarrow> string \<Rightarrow> exn + string list" where
  "py_split s sep =
     (if sep = [] then Inl (Exn ''ValueError: empty separator'')
      else Inr (split_from sep [] s))"

text \<open>\<open>s.split()\<close>: runs of whitespace separate the parts, and no part is empty.\<close>

fun split_ws_from :: "string \<Rightarrow> string \<Rightarrow> string list" where
  "split_ws_from cur [] = (if cur = [] then [] else [cur])"
| "split_ws_from cur (c # cs) =
     (if py_isspace c
      then (if cur = [] then split_ws_from [] cs else cur # split_ws_from [] cs)
      else split_ws_from (cur @ [c]) cs)"

definition py_split_ws :: "string \<Rightarrow> string list" where
  "py_split_ws s = split_ws_from [] s"

text \<open>\<open>sep.join(parts)\<close>, used to say what a split is.\<close>

fun py_join :: "string \<Rightarrow> string list \<Rightarrow> string" where
  "py_join sep [] = []"
| "py_join sep [p] = p"
| "py_join sep (p # q # ps) = p @ sep @ py_join sep (q # ps)"

section \<open>Expiry normalisation (\<open>auto_bind_card.py\<close>, lines 39 to 56)\<close>

text \<open>
  The two arguments are strings (\<open>exp_month or ""\<close> leaves a string as it is). The
  \<open>try\<close> around the two \<open>int()\<close> calls returns the pair unswapped on \<open>ValueError\<close>.
\<close>

definition normalize_exp_parts :: "string \<Rightarrow> string \<Rightarrow> string \<times> string" where
  "normalize_exp_parts exp_month exp_year =
    (let mm = filter py_isdigit (py_strip exp_month);
         yy = filter py_isdigit (py_strip exp_year);
         yy = (if length yy \<ge> 4 then last_n 2 yy else yy);
         mm = (if length mm = 1 then CHR ''0'' # mm else mm);
         yy = (if length yy = 1 then CHR ''0'' # yy else yy)
     in case (if mm \<noteq> [] then py_int mm else Some 0) of
          None \<Rightarrow> (mm, yy)
        | Some mm_i \<Rightarrow>
           (case (if yy \<noteq> [] then py_int yy else Some 0) of
              None \<Rightarrow> (mm, yy)
            | Some yy_i \<Rightarrow>
               if mm_i > 12 \<and> 1 \<le> yy_i \<and> yy_i \<le> 12
               then (zfill 2 yy, last_n 2 (py_str mm_i))
               else (mm, yy)))"

text \<open>The words of the specification: the digits of a field, padding, truncation.\<close>

definition digits_of :: "string \<Rightarrow> string" where
  "digits_of s = filter py_isdigit s"

definition pad_single_digit :: "string \<Rightarrow> string" where
  "pad_single_digit s = (if length s = 1 then CHR ''0'' # s else s)"

definition truncate_long_year :: "string \<Rightarrow> string" where
  "truncate_long_year s = (if 4 \<le> length s then last_n 2 s else s)"

section \<open>Account lines (\<open>web/backend/routers/accounts.py\<close>, lines 22 to 33)\<close>

definition separators :: "string list" where
  "separators = [''----'', ''---'', ''|'', '','', '';'', [CHR 0x09]]"

text \<open>The \<open>for sep in [...]\<close> loop: the first separator found in the line splits it.\<close>

fun try_separators :: "string list \<Rightarrow> string \<Rightarrow> exn + string list option" where
  "try_separators [] line = Inr None"
| "try_separators (sep # seps) line =
     (if py_in sep line
      then (case py_split line sep of Inl e \<Rightarrow> Inl e | Inr parts \<Rightarrow> Inr (Some parts))
      else try_separators seps line)"

definition split_account_line :: "string \<Rightarrow> string \<Rightarrow> exn + string list" where
  "split_account_line line separator =
     (case (if separator \<noteq> [] \<and> py_in separator line
            then py_split line separator
            else (case try_separators separators line of
                    Inl e \<Rightarrow> Inl e
                  | Inr (Some parts) \<Rightarrow> Inr parts
                  | Inr None \<Rightarrow> Inr (py_split_ws line))) of
        Inl e \<Rightarrow> Inl e
      | Inr parts \<Rightarrow> Inr (map py_strip (filter (\<lambda>p. py_strip p \<noteq> []) parts)))"

text \<open>
  What the specification calls a split on a separator, a split on whitespace and
  trimmed parts, said without the scans above.
  \<^item> A split of a line on a separator: the first part is what stands before the first
    occurrence of the separator (the separator does not occur in the part followed by
    all but the last character of the separator), and the parts that follow are the
    split of what stands after that occurrence; a line without the separator is its
    own single part.
  \<^item> A split of a line on whitespace: the line is whitespace, then the first part,
    which is not empty and has no whitespace in it, then the end of the line or a
    whitespace character, from which the split goes on; a line of whitespace has no
    parts.
  \<^item> A trimmed part: what is left of a part when the whitespace before its first and
    after its last character that is no whitespace is taken off. The trimmed parts of
    a list are those of its parts that are not made of whitespace only, in their order.
\<close>

inductive is_split_on :: "string \<Rightarrow> string \<Rightarrow> string list \<Rightarrow> bool" for sep where
  last_part: "\<not> sublist sep p \<Longrightarrow> is_split_on sep p [p]"
| next_part: "\<not> sublist sep (p @ butlast sep) \<Longrightarrow> is_split_on sep rest ps \<Longrightarrow>
              is_split_on sep (p @ sep @ rest) (p # ps)"

inductive is_whitespace_split :: "string \<Rightarrow> string list \<Rightarrow> bool" where
  blank: "list_all py_isspace g \<Longrightarrow> is_whitespace_split g []"
| word: "list_all py_isspace g \<Longrightarrow> p \<noteq> [] \<Longrightarrow> list_all (\<lambda>c. \<not> py_isspace c) p \<Longrightarrow>
         rest = [] \<or> py_isspace (hd rest) \<Longrightarrow> is_whitespace_split rest ps \<Longrightarrow>
         is_whitespace_split (g @ p @ rest) (p # ps)"

definition is_trim_of :: "string \<Rightarrow> string \<Rightarrow> bool" where
  "is_trim_of p r \<longleftrightarrow>
     r \<noteq> [] \<and> \<not> py_isspace (hd r) \<and> \<not> py_isspace (last r) \<and>
     (\<exists>l t. p = l @ r @ t \<and> list_all py_isspace l \<and> list_all py_isspace t)"

definition are_trimmed_parts :: "string list \<Rightarrow> string list \<Rightarrow> bool" where
  "are_trimmed_parts parts result \<longleftrightarrow>
     list_all2 is_trim_of (filter (\<lambda>p. \<not> list_all py_isspace p) parts) result"

section \<open>Control flow of the automation code\<close>

text \<open>
  The functions of \<open>auto_bind_card.py\<close> drive a browser page through Playwright. In
  the model every call that leaves the Python code (a Playwright call, the account
  store, the TOTP library, the recovery helpers of \<open>google_recovery\<close>) is a \<open>call\<close>
  answered by the environment: a value, or an exception. A program is a function on a
  state that holds the number of calls made so far and their list, and its result is
  one of three things: it went on with a value (\<open>Val\<close>), it executed a \<open>return\<close>
  statement (\<open>Ret\<close>), or it raised (\<open>Exc\<close>). \<open>print\<close>, \<open>traceback.print_exc\<close> and
  \<open>asyncio.sleep\<close> have no effect on the control flow and answer nothing; \<open>sleep\<close>
  is kept by name, the prints are left out.
\<close>

datatype msg =
    NeedLoginNoAccount
  | Need2FANoSecret
  | NeedManualCaptcha
  | LoginOk
  | AlreadyLoggedIn
  | LoginCheckError exn
  | LoginFailed msg
  | AlreadyBoundSubscribed
  | AlreadyBound
  | IframeNotFound
  | AddCardFailed exn
  | CardFormFrameNotFound
  | TooFewInputs nat
  | FillNumberFailed exn
  | FillExpFailed exn
  | FillCvvFailed exn
  | SaveButtonNotFound
  | SaveClickFailed exn
  | SubscribedConfirmed
  | SubscribedAssumed
  | BindOk
  | BindDone
  | BindError exn
  | BrowserInfoNotFound
  | CannotOpenBrowser
  | NoWsEndpoint
  | OpenBrowserFailed
  | TestError exn

text \<open>
  The messages of the \<open>(success, message)\<close> pairs, one constructor for each string
  the code builds (line of \<open>auto_bind_card.py\<close>, with the English of the text):
  \<^item> \<open>NeedLoginNoAccount\<close> (80): login needed but no account given;
  \<^item> \<open>Need2FANoSecret\<close> (117): 2FA or recovery e-mail needed, no secret given;
  \<^item> \<open>NeedManualCaptcha\<close> (126): a captcha must be solved by hand;
  \<^item> \<open>LoginOk\<close> (133): logged in; \<open>AlreadyLoggedIn\<close> (136): already logged in;
  \<^item> \<open>LoginCheckError e\<close> (140); \<open>LoginFailed m\<close> (161): login failed, then \<open>m\<close>;
  \<^item> \<open>AlreadyBoundSubscribed\<close> (373): subscribed with the card already bound and the
    marker seen, "(Already bound, Subs cribed)"; \<open>AlreadyBound\<close> (483, 487): the same
    without the marker, "(Already bound)";
  \<^item> \<open>IframeNotFound\<close> (511); \<open>AddCardFailed e\<close> (577); \<open>CardFormFrameNotFound\<close> (581);
  \<^item> \<open>TooFewInputs n\<close> (601): not enough input boxes, only \<open>n\<close> found;
  \<^item> \<open>FillNumberFailed e\<close> (612); \<open>FillExpFailed e\<close> (631); \<open>FillCvvFailed e\<close> (645);
  \<^item> \<open>SaveButtonNotFound\<close> (692); \<open>SaveClickFailed e\<close> (697);
  \<^item> \<open>SubscribedConfirmed\<close> (805): bound and subscribed, "(Subscribed confirmed)";
    \<open>SubscribedAssumed\<close> (812, 815): bound and subscribed, "(Subscribed)";
  \<^item> \<open>BindOk\<close> (819): card bound; \<open>BindDone\<close> (826): binding finished;
  \<^item> \<open>BindError e\<close> (832, 1006): binding error, then \<open>str(e)\<close>;
  \<^item> \<open>BrowserInfoNotFound\<close> (946); \<open>CannotOpenBrowser\<close> (964); \<open>NoWsEndpoint\<close> (969);
  \<^item> \<open>OpenBrowserFailed\<close> (873); \<open>TestError e\<close> (910): \<open>str(e)\<close> alone.
\<close>

type_synonym outcome = "bool \<times> msg"

datatype 'a res = Val 'a | Ret outcome | Exc exn

type_synonym ('s, 'a) prog = "'s \<Rightarrow> 'a res \<times> 's"

definition ret :: "'a \<Rightarrow> ('s, 'a) prog" where
  "ret v = (\<lambda>s. (Val v, s))"

definition raise :: "exn \<Rightarrow> ('s, 'a) prog" where
  "raise e = (\<lambda>s. (Exc e, s))"

text \<open>The statement \<open>return r\<close>.\<close>

definition early_return :: "outcome \<Rightarrow> ('s, 'a) prog" where
  "early_return r = (\<lambda>s. (Ret r, s))"

definition bind :: "('s, 'a) prog \<Rightarrow> ('a \<Rightarrow> ('s, 'b) prog) \<Rightarrow> ('s, 'b) prog" where
  "bind m k = (\<lambda>s. case m s of
      (Val v, s') \<Rightarrow> k v s'
    | (Ret r, s') \<Rightarrow> (Ret r, s')
    | (Exc e, s') \<Rightarrow> (Exc e, s'))"

definition seq :: "('s, 'a) prog \<Rightarrow> ('s, 'b) prog \<Rightarrow> ('s, 'b) prog" where
  "seq m n = bind m (\<lambda>_. n)"

text \<open>A run of statements, and a statement whose value is dropped.\<close>

fun block :: "('s, unit) prog list \<Rightarrow> ('s, unit) prog" where
  "block [] = ret ()"
| "block (m # ms) = seq m (block ms)"

definition ignore :: "('s, 'a) prog \<Rightarrow> ('s, unit) prog" where
  "ignore m = bind m (\<lambda>_. ret ())"

text \<open>
  \<open>try: m except Exception as e: h e\<close>, the bare \<open>try: m except: h\<close>, and
  \<open>try: m finally: f\<close>. A \<open>return\<close> passes through the first two; the \<open>finally\<close>
  clause runs after every kind of result, and what it raises or returns replaces it.
\<close>

definition try_except :: "('s, 'a) prog \<Rightarrow> (exn \<Rightarrow> ('s, 'a) prog) \<Rightarrow> ('s, 'a) prog" where
  "try_except m h = (\<lambda>s. case m s of
      (Exc (Exn x), s') \<Rightarrow> h (Exn x) s'
    | (r, s') \<Rightarrow> (r, s'))"

definition try_bare :: "('s, 'a) prog \<Rightarrow> ('s, 'a) prog \<Rightarrow> ('s, 'a) prog" where
  "try_bare m h = (\<lambda>s. case m s of
      (Exc e, s') \<Rightarrow> h s'
    | (r, s') \<Rightarrow> (r, s'))"

definition try_finally :: "('s, 'a) prog \<Rightarrow> ('s, unit) prog \<Rightarrow> ('s, 'a) prog" where
  "try_finally m f = (\<lambda>s. case m s of
      (r, s') \<Rightarrow> (case f s' of
          (Val u, s'') \<Rightarrow> (r, s'')
        | (Ret x, s'') \<Rightarrow> (Ret x, s'')
        | (Exc e, s'') \<Rightarrow> (Exc e, s'')))"

text \<open>
  A call of a function whose body is \<open>body\<close>: the value of its \<open>return\<close>, or
  \<open>None\<close> when the body ends without one.
\<close>

definition call_fn :: "('s, 'a) prog \<Rightarrow> ('s, outcome option) prog" where
  "call_fn body = (\<lambda>s. case body s of
      (Val v, s') \<Rightarrow> (Val None, s')
    | (Ret r, s') \<Rightarrow> (Val (Some r), s')
    | (Exc e, s') \<Rightarrow> (Exc e, s'))"

text \<open>
  \<open>for x in xs: ... break\<close>: the body answers \<open>Some v\<close> where the source sets its
  variable and breaks, \<open>None\<close> where it goes on to the next element (also through
  \<open>continue\<close> in an \<open>except\<close> clause).
\<close>

fun find_first :: "('x \<Rightarrow> ('s, 'a option) prog) \<Rightarrow> 'x list \<Rightarrow> ('s, 'a option) prog" where
  "find_first body [] = ret None"
| "find_first body (x # xs) =
     bind (body x) (\<lambda>r. case r of Some v \<Rightarrow> ret (Some v) | None \<Rightarrow> find_first body xs)"

definition sleep :: "nat \<Rightarrow> ('s, unit) prog" where
  "sleep milliseconds = ret ()"

section \<open>Dictionaries\<close>

type_synonym dict = "(string \<times> string) list"

text \<open>\<open>d.get(k)\<close>, \<open>d.get(k, default)\<close>, \<open>d[k]\<close>, and the truth value of a string.\<close>

definition dict_get :: "dict \<Rightarrow> string \<Rightarrow> string option" where
  "dict_get d k = map_of d k"

definition dict_get_default :: "dict \<Rightarrow> string \<Rightarrow> string \<Rightarrow> string" where
  "dict_get_default d k v = (case map_of d k of None \<Rightarrow> v | Some x \<Rightarrow> x)"

definition dict_item :: "dict \<Rightarrow> string \<Rightarrow> ('s, string) prog" where
  "dict_item d k = (case map_of d k of None \<Rightarrow> raise (Exn (''KeyError: '' @ k)) | Some x \<Rightarrow> ret x)"

definition truthy :: "string option \<Rightarrow> bool" where
  "truthy v = (case v of None \<Rightarrow> False | Some s \<Rightarrow> s \<noteq> [])"

definition py_or :: "string option \<Rightarrow> string option \<Rightarrow> string option" where
  "py_or a b = (if truthy a then a else b)"

section \<open>The page and the calls made on it\<close>

datatype frame = Frame nat string

fun url :: "frame \<Rightarrow> string" where
  "url (Frame i u) = u"

text \<open>
  A search scope is the page, \<open>page.frame_locator(selector)\<close> or one of \<open>page.frames\<close>.
  A locator is \<open>scope.locator(selector)\<close>, its \<open>.first\<close> or its \<open>.nth(i)\<close>; making
  one queries nothing.
\<close>

datatype scope = Page | FrameLocator string | InFrame frame

datatype locator = Locator scope string | First locator | Nth locator nat

datatype handle = Handle nat

datatype call =
    WaitForSelector string nat
  | HandleFill handle "string option"
  | PageClick string
  | PageFill string "string option"
  | TotpNow string
  | HandleRecoveryEmailChallenge "string option"
  | DetectManualVerification
  | Screenshot string
  | Frames
  | Count locator
  | IsVisible locator
  | Click locator
  | ClickForce locator
  | EvaluateHandle locator
  | HandleClickForce handle
  | Fill locator string
  | GetAttribute locator string
  | MoveToSubscribed string

record state =
  clock :: nat
  trace :: "call list"

text \<open>
  The environment answers a call from its position in the run and its arguments, one
  field for each type of answer. \<open>default_card\<close> is the module's \<open>DEFAULT_CARD\<close>.
\<close>

record env =
  default_card :: dict
  unit_result :: "nat \<Rightarrow> call \<Rightarrow> exn + unit"
  count_result :: "nat \<Rightarrow> call \<Rightarrow> exn + nat"
  bool_result :: "nat \<Rightarrow> call \<Rightarrow> exn + bool"
  text_result :: "nat \<Rightarrow> call \<Rightarrow> exn + string option"
  handle_result :: "nat \<Rightarrow> call \<Rightarrow> exn + handle option"
  frames_result :: "nat \<Rightarrow> frame list"

definition made :: "call \<Rightarrow> state \<Rightarrow> state" where
  "made c s = s\<lparr>clock := Suc (clock s), trace := trace s @ [c]\<rparr>"

definition perform :: "(nat \<Rightarrow> call \<Rightarrow> exn + 'a) \<Rightarrow> call \<Rightarrow> (state, 'a) prog" where
  "perform answer c = (\<lambda>s. (case answer (clock s) c of Inl e \<Rightarrow> Exc e | Inr v \<Rightarrow> Val v, made c s))"

definition wait_for_selector :: "env \<Rightarrow> string \<Rightarrow> nat \<Rightarrow> (state, handle option) prog" where
  "wait_for_selector env selector timeout = perform (handle_result env) (WaitForSelector selector timeout)"

definition handle_fill :: "env \<Rightarrow> handle \<Rightarrow> string option \<Rightarrow> (state, unit) prog" where
  "handle_fill env h v = perform (unit_result env) (HandleFill h v)"

definition page_click :: "env \<Rightarrow> string \<Rightarrow> (state, unit) prog" where
  "page_click env selector = perform (unit_result env) (PageClick selector)"

definition page_fill :: "env \<Rightarrow> string \<Rightarrow> string option \<Rightarrow> (state, unit) prog" where
  "page_fill env selector v = perform (unit_result env) (PageFill selector v)"

definition totp_now :: "env \<Rightarrow> string \<Rightarrow> (state, string option) prog" where
  "totp_now env secret = perform (text_result env) (TotpNow secret)"

definition handle_recovery_email_challenge :: "env \<Rightarrow> string option \<Rightarrow> (state, bool) prog" where
  "handle_recovery_email_challenge env backup = perform (bool_result env) (HandleRecoveryEmailChallenge backup)"

definition detect_manual_verification :: "env \<Rightarrow> (state, bool) prog" where
  "detect_manual_verification env = perform (bool_result env) DetectManualVerification"

definition screenshot :: "env \<Rightarrow> string \<Rightarrow> (state, unit) prog" where
  "screenshot env path = perform (unit_result env) (Screenshot path)"

definition frames :: "env \<Rightarrow> (state, frame list) prog" where
  "frames env = perform (\<lambda>t c. Inr (frames_result env t)) Frames"

definition count :: "env \<Rightarrow> locator \<Rightarrow> (state, nat) prog" where
  "count env element = perform (count_result env) (Count element)"

definition is_visible :: "env \<Rightarrow> locator \<Rightarrow> (state, bool) prog" where
  "is_visible env element = perform (bool_result env) (IsVisible element)"

definition click :: "env \<Rightarrow> locator \<Rightarrow> (state, unit) prog" where
  "click env element = perform (unit_result env) (Click element)"

definition click_force :: "env \<Rightarrow> locator \<Rightarrow> (state, unit) prog" where
  "click_force env element = perform (unit_result env) (ClickForce element)"

definition evaluate_handle :: "env \<Rightarrow> locator \<Rightarrow> (state, handle option) prog" where
  "evaluate_handle env element = perform (handle_result env) (EvaluateHandle element)"

definition handle_click_force :: "env \<Rightarrow> handle \<Rightarrow> (state, unit) prog" where
  "handle_click_force env h = perform (unit_result env) (HandleClickForce h)"

definition fill :: "env \<Rightarrow> locator \<Rightarrow> string \<Rightarrow> (state, unit) prog" where
  "fill env element v = perform (unit_result env) (Fill element v)"

definition get_attribute :: "env \<Rightarrow> locator \<Rightarrow> string \<Rightarrow> (state, string option) prog" where
  "get_attribute env element name = perform (text_result env) (GetAttribute element name)"

definition move_to_subscribed :: "env \<Rightarrow> string \<Rightarrow> (state, unit) prog" where
  "move_to_subscribed env line = perform (unit_result env) (MoveToSubscribed line)"

text \<open>
  The two tests the selector loops make: \<open>await element.count() > 0\<close>, and
  \<open>await element.count() > 0 and await element.is_visible()\<close>, where \<open>and\<close> asks
  for the visibility only of an element that is there.
\<close>

definition present :: "env \<Rightarrow> locator \<Rightarrow> (state, bool) prog" where
  "present env element = bind (count env element) (\<lambda>n. ret (n > 0))"

definition present_and_visible :: "env \<Rightarrow> locator \<Rightarrow> (state, bool) prog" where
  "present_and_visible env element =
     bind (count env element) (\<lambda>n. if n > 0 then is_visible env element else ret False)"

section \<open>Selector lists of \<open>auto_bind_card\<close>\<close>

definition cta_selectors :: "string list" where
  \<open>cta_selectors =
    [''button.VfPpkd-LgbsSe-OWXEXe-k8QpJ'',
     ''button[data-idom-class*="filled"]'',
     ''main button'',
     ''[role="main"] button'',
     ''main a[role="button"]'',
     ''button:has-text("Get student offer")'',
     ''button:has-text("Get offer")'',
     ''a:has-text("Get student offer")'']\<close>

definition subscribe_selectors_step1_5 :: "string list" where
  \<open>subscribe_selectors_step1_5 =
    [''button:has-text("Subscribe")'',
     ''button:has-text("Subscribe now")'',
     ''button:has-text("Start subscription")'',
     ''button:has-text("Start plan")'',
     ''button:has-text("Start trial")'',
     ''[role="button"]:has-text("Subscribe")'',
     ''[role="button"]:has-text("Subscribe now")'',
     ''[role="button"]:has-text("Start subscription")'',
     ''[role="button"]:has-text("Start plan")'',
     ''[role="button"]:has-text("Start trial")'',
     ''a:has-text("Subscribe")'',
     ''a:has-text("Subscribe now")'',
     ''button:has-text("<U+8BA2><U+9605>")'',
     ''button:has-text("<U+786E><U+8BA4><U+8BA2><U+9605>")'',
     ''button:has-text("<U+5F00><U+59CB><U+8BA2><U+9605>")'',
     ''button:has-text("<U+7ACB><U+5373><U+8BA2><U+9605>")'',
     ''[role="button"]:has-text("<U+8BA2><U+9605>")'',
     ''[role="button"]:has-text("<U+786E><U+8BA4><U+8BA2><U+9605>")'',
     ''[role="button"]:has-text("<U+5F00><U+59CB><U+8BA2><U+9605>")'',
     ''a:has-text("<U+8BA2><U+9605>")'']\<close>

definition subscribe_selectors_precheck :: "string list" where
  \<open>subscribe_selectors_precheck =
    [''span.UywwFc-vQzf8d:has-text("Subscribe")'',
     ''span[jsname="V67aGc"]'',
     ''span.UywwFc-vQzf8d'',
     ''span:has-text("Subscribe")'',
     '':text("Subscribe")'',
     ''button:has-text("Subscribe")'']\<close>

definition subscribed_selectors :: "string list" where
  \<open>subscribed_selectors =
    ['':text("Subscribed")'',
     ''text=Subscribed'',
     ''*:has-text("Subscribed")'']\<close>

definition error_selectors :: "string list" where
  \<open>error_selectors =
    ['':text("Error")'',
     ''text=Error'',
     '':has-text("Your card issuer declined")'']\<close>

definition got_it_selectors :: "string list" where
  \<open>got_it_selectors =
    [''button:has-text("Got it")'',
     '':text("Got it")'',
     ''button:has-text("<U+786E><U+5B9A>")'']\<close>

definition get_offer_selectors :: "string list" where
  \<open>get_offer_selectors =
    [''button.VfPpkd-LgbsSe-OWXEXe-k8QpJ'',
     ''button[data-idom-class*="filled"]'',
     ''main button'',
     ''[role="main"] button'',
     ''main a[role="button"]'',
     ''button:has-text("Get student offer")'',
     '':text("Get student offer")'']\<close>

definition card_selectors :: "string list" where
  \<open>card_selectors =
    [''span.Ngbcnc'',
     ''div.dROd9.ct1Mcc'',
     '':has-text("Mastercard")'']\<close>

definition add_card_selectors :: "string list" where
  \<open>add_card_selectors =
    [''button:has-text("Ajouter une carte")'',
     ''button:has-text("Add card")'',
     ''button:has-text("A<U+00F1>adir tarjeta")'',
     ''button:has-text("Karte hinzuf<U+00FC>gen")'',
     ''button:has-text("<U+6DFB><U+52A0><U+5361>")'',
     ''span.PjwEQ'',
     '':text("Add card")'',
     '':text("Ajouter")'']\<close>

definition save_selectors :: "string list" where
  \<open>save_selectors =
    [''button:has-text("Enregistrer")'',
     ''button:has-text("Save")'',
     ''button:has-text("Guardar")'',
     ''button:has-text("Speichern")'',
     ''button:has-text("<U+4FDD><U+5B58>")'',
     ''button[type="submit"]'']\<close>

definition subscribe_selectors_step7 :: "string list" where
  \<open>subscribe_selectors_step7 =
    [''span.UywwFc-vQzf8d:has-text("Subscribe")'',
     ''span[jsname="V67aGc"]'',
     ''span.UywwFc-vQzf8d'',
     ''span:has-text("Subscribe")'',
     '':text("Subscribe")'',
     ''button:has-text("Subscribe")'',
     ''button:has-text("<U+8BA2><U+9605>")'',
     ''button:has-text("Start")'',
     ''button:has-text("<U+5F00><U+59CB>")'',
     ''button:has-text("<U+7EE7><U+7EED>")'',
     ''div[role="button"]:has-text("Subscribe")'',
     ''[role="button"]:has-text("Subscribe")'',
     ''button[type="submit"]'',
     ''dialog span:has-text("Subscribe")'',
     ''[role="dialog"] span:has-text("Subscribe")'',
     ''dialog button:has-text("Subscribe")'',
     ''[role="dialog"] button:has-text("Subscribe")'']\<close>

definition payment_iframe :: string where
  \<open>payment_iframe = ''iframe[src*="tokenized.play.google.com"]''\<close>

definition totp_selector :: string where
  \<open>totp_selector = ''input[name="totpPin"], input[id="totpPin"], input[type="tel"]''\<close>

definition email_selector :: string where
  \<open>email_selector = ''input[type="email"]''\<close>

definition password_selector :: string where
  \<open>password_selector = ''input[type="password"]''\<close>

section \<open>\<open>check_and_login\<close> (lines 58 to 140)\<close>

text \<open>
  \<open>account_info\<close> is a dictionary or \<open>None\<close>; an empty dictionary is as false as
  \<open>None\<close>. \<open>backup_of\<close> is \<open>account_info.get('backup') or account_info.get('backup_email')\<close>.
\<close>

definition backup_of :: "dict \<Rightarrow> string option" where
  "backup_of account_info = py_or (dict_get account_info ''backup'') (dict_get account_info ''backup_email'')"

text \<open>Lines 98 to 117, the body of the \<open>try\<close> of step 3.\<close>

definition two_factor_recovery :: "env \<Rightarrow> dict \<Rightarrow> (state, unit) prog" where
  "two_factor_recovery env account_info =
     bind (handle_recovery_email_challenge env (backup_of account_info)) (\<lambda>handled.
       if \<not> handled then early_return (False, Need2FANoSecret) else ret ())"

definition two_factor :: "env \<Rightarrow> dict \<Rightarrow> (state, unit) prog" where
  "two_factor env account_info =
     bind (wait_for_selector env totp_selector 10000) (\<lambda>totp_input.
       case totp_input of
         None \<Rightarrow> ret ()
       | Some h \<Rightarrow>
          (case dict_get account_info ''secret'' of
             None \<Rightarrow> two_factor_recovery env account_info
           | Some secret \<Rightarrow>
               if secret \<noteq> []
               then bind (totp_now env (py_strip (filter (\<lambda>c. c \<noteq> CHR '' '') secret))) (\<lambda>code.
                      block [handle_fill env h code, page_click env ''#totpNext >> button''])
               else two_factor_recovery env account_info))"

text \<open>Lines 122 to 126, the body of the \<open>try\<close> of step 4.\<close>

definition recovery_check :: "env \<Rightarrow> dict \<Rightarrow> (state, unit) prog" where
  "recovery_check env account_info =
     bind (handle_recovery_email_challenge env (backup_of account_info)) (\<lambda>handled.
     bind (detect_manual_verification env) (\<lambda>manual.
       if manual then early_return (False, NeedManualCaptcha) else ret ()))"

text \<open>Lines 77 to 133, the body of \<open>if email_input:\<close>.\<close>

definition login_flow :: "env \<Rightarrow> dict option \<Rightarrow> handle \<Rightarrow> (state, unit) prog" where
  "login_flow env account_info email_input =
     (case account_info of
        None \<Rightarrow> early_return (False, NeedLoginNoAccount)
      | Some acct \<Rightarrow>
          if acct = [] then early_return (False, NeedLoginNoAccount)
          else block
            [handle_fill env email_input (dict_get acct ''email''),
             page_click env ''#identifierNext >> button'',
             ignore (wait_for_selector env password_selector 15000),
             page_fill env password_selector (dict_get acct ''password''),
             page_click env ''#passwordNext >> button'',
             try_except (two_factor env acct) (\<lambda>e. ret ()),
             try_except (recovery_check env acct) (\<lambda>e. ret ()),
             sleep 5000,
             early_return (True, LoginOk)])"

definition check_and_login :: "env \<Rightarrow> dict option \<Rightarrow> (state, outcome option) prog" where
  "check_and_login env account_info =
     call_fn
       (try_except
          (try_bare
             (bind (wait_for_selector env email_selector 5000) (\<lambda>email_input.
                case email_input of
                  None \<Rightarrow> ret ()
                | Some h \<Rightarrow> login_flow env account_info h))
             (early_return (True, AlreadyLoggedIn)))
          (\<lambda>e. early_return (False, LoginCheckError e)))"

section \<open>\<open>auto_bind_card\<close> (lines 142 to 832)\<close>

text \<open>Lines 159 to 161: the tuple assignment fails on \<open>None\<close>.\<close>

definition login_gate :: "env \<Rightarrow> dict option \<Rightarrow> (state, unit) prog" where
  "login_gate env account_info =
     bind (check_and_login env account_info) (\<lambda>r.
       case r of
         None \<Rightarrow> raise (Exn ''TypeError: cannot unpack non-iterable NoneType object'')
       | Some (login_success, login_msg) \<Rightarrow>
           if \<not> login_success then early_return (False, LoginFailed login_msg) else ret ())"

text \<open>Lines 174 to 265: the call-to-action button and the subscribe button.\<close>

definition click_cta :: "env \<Rightarrow> (state, unit option) prog" where
  "click_cta env =
     find_first (\<lambda>selector.
       try_bare
         (let element = First (Locator Page selector) in
          bind (present_and_visible env element) (\<lambda>ok.
            if ok then seq (click env element) (ret (Some ())) else ret None))
         (ret None)) cta_selectors"

definition click_subscribe :: "env \<Rightarrow> scope list \<Rightarrow> (state, unit option) prog" where
  "click_subscribe env scopes =
     find_first (\<lambda>scope.
       find_first (\<lambda>selector.
         try_except
           (let element = First (Locator scope selector) in
            bind (present_and_visible env element) (\<lambda>ok.
              if ok then seq (click env element) (ret (Some ())) else ret None))
           (\<lambda>e. ret None)) subscribe_selectors_step1_5) scopes"

definition stage_cta :: "env \<Rightarrow> (state, unit) prog" where
  "stage_cta env =
     try_except
       (block
          [ignore (click_cta env),
           bind (frames env) (\<lambda>fs.
           bind (click_subscribe env (Page # map InFrame fs)) (\<lambda>subscribed_clicked.
             if subscribed_clicked \<noteq> None
             then block [sleep 5000, screenshot env ''step2_after_subscribe_click.png'']
             else ret ())),
           sleep 8000,
           screenshot env ''step2_after_get_offer.png''])
       (\<lambda>e. ret ())"

text \<open>Lines 158 to 265.\<close>

definition before_precheck :: "env \<Rightarrow> dict option \<Rightarrow> (state, unit) prog" where
  "before_precheck env account_info =
     block
       [login_gate env account_info,
        screenshot env ''step1_initial.png'',
        sleep 2000,
        stage_cta env]"

text \<open>
  Lines 267 to 495, the check for a card that is already bound. \<open>find_subscribe_early\<close>
  is the two loops of lines 293 to 317: the frame locator first, then the page.
\<close>

definition find_subscribe_early :: "env \<Rightarrow> scope \<Rightarrow> (state, locator option) prog" where
  "find_subscribe_early env iframe_locator =
     bind (find_first (\<lambda>selector.
             try_bare
               (let element = First (Locator iframe_locator selector) in
                bind (count env element) (\<lambda>n. if n > 0 then ret (Some element) else ret None))
               (ret None)) subscribe_selectors_precheck) (\<lambda>found.
       case found of
         Some element \<Rightarrow> ret (Some element)
       | None \<Rightarrow>
           find_first (\<lambda>selector.
             try_bare
               (let element = First (Locator Page selector) in
                bind (present_and_visible env element) (\<lambda>ok.
                  if ok then ret (Some element) else ret None))
               (ret None)) subscribe_selectors_precheck)"

text \<open>Lines 321 to 338: the click, with its fallback on the enclosing button.\<close>

definition click_subscribe_early :: "env \<Rightarrow> locator \<Rightarrow> (state, unit) prog" where
  "click_subscribe_early env subscribe_button_early =
     block
       [sleep 2000,
        try_except (click_force env subscribe_button_early) (\<lambda>e.
          try_except
            (bind (evaluate_handle env subscribe_button_early) (\<lambda>wrapper.
               case wrapper of
                 None \<Rightarrow> raise (Exn ''AttributeError: NoneType object has no attribute click'')
               | Some h \<Rightarrow> handle_click_force env h))
            (\<lambda>e. ret ())),
        sleep 10000,
        screenshot env ''step_subscribe_existing_card.png'']"

text \<open>
  The marker scans of lines 353 to 365 and 388 to 400: for each selector, each scope.
\<close>

definition scan_markers :: "env \<Rightarrow> scope list \<Rightarrow> string list \<Rightarrow> (state, bool) prog" where
  "scan_markers env scopes selectors =
     bind (find_first (\<lambda>selector.
             find_first (\<lambda>scope.
               try_bare
                 (let element = First (Locator scope selector) in
                  bind (count env element) (\<lambda>n. if n > 0 then ret (Some ()) else ret None))
                 (ret None)) scopes) selectors) (\<lambda>found.
       ret (found \<noteq> None))"

text \<open>
  Lines 370 to 372, 802 to 804 and 809 to 811: the account store is told only when
  \<open>account_info\<close> holds an e-mail address.
\<close>

definition account_line :: "dict \<Rightarrow> string" where
  "account_line account_info =
     dict_get_default account_info ''email'' [] @ ''----'' @
     dict_get_default account_info ''password'' [] @ ''----'' @
     dict_get_default account_info ''backup'' [] @ ''----'' @
     dict_get_default account_info ''secret'' []"

definition has_email :: "dict option \<Rightarrow> bool" where
  "has_email account_info =
     (case account_info of None \<Rightarrow> False | Some acct \<Rightarrow> acct \<noteq> [] \<and> truthy (dict_get acct ''email''))"

definition mark_subscribed :: "env \<Rightarrow> dict option \<Rightarrow> (state, unit) prog" where
  "mark_subscribed env account_info =
     (case account_info of
        None \<Rightarrow> ret ()
      | Some acct \<Rightarrow>
          if acct \<noteq> [] \<and> truthy (dict_get acct ''email'')
          then move_to_subscribed env (account_line acct)
          else ret ())"

text \<open>Lines 403 to 480: the replacement of an expired card.\<close>

definition replace_card_flow :: "env \<Rightarrow> scope \<Rightarrow> (state, unit) prog" where
  "replace_card_flow env iframe_locator =
     block
       [ignore (find_first (\<lambda>selector.
          try_bare
            (let element = First (Locator iframe_locator selector) in
             bind (count env element) (\<lambda>n.
               if n > 0 then seq (click env element) (seq (sleep 3000) (ret (Some ())))
               else ret None))
            (ret None)) got_it_selectors),
        ignore (find_first (\<lambda>selector.
          try_bare
            (let element = First (Locator Page selector) in
             bind (present_and_visible env element) (\<lambda>ok.
               if ok then seq (click env element) (seq (sleep 8000) (ret (Some ())))
               else ret None))
            (ret None)) get_offer_selectors),
        try_except
          (let iframe_locator_card = FrameLocator payment_iframe in
           ignore (find_first (\<lambda>selector.
             try_bare
               (let element = First (Locator iframe_locator_card selector) in
                bind (count env element) (\<lambda>n.
                  if n > 0 then seq (click env element) (seq (sleep 5000) (ret (Some ())))
                  else ret None))
               (ret None)) card_selectors))
          (\<lambda>e. ret ())]"

text \<open>Lines 341 to 487, the \<open>try\<close> that verifies the subscription with the bound card.\<close>

definition verify_existing_card :: "env \<Rightarrow> dict option \<Rightarrow> scope \<Rightarrow> (state, unit) prog" where
  "verify_existing_card env account_info iframe_locator =
     try_except
       (bind (scan_markers env [iframe_locator, Page] subscribed_selectors) (\<lambda>subscribed_found.
          if subscribed_found
          then seq (mark_subscribed env account_info) (early_return (True, AlreadyBoundSubscribed))
          else bind (scan_markers env [iframe_locator, Page] error_selectors) (\<lambda>error_found.
                 if error_found then replace_card_flow env iframe_locator
                 else early_return (True, AlreadyBound))))
       (\<lambda>e. early_return (True, AlreadyBound))"

definition precheck :: "env \<Rightarrow> dict option \<Rightarrow> (state, unit) prog" where
  "precheck env account_info =
     try_except
       (seq (sleep 3000)
          (try_except
             (let iframe_locator = FrameLocator payment_iframe in
              bind (find_subscribe_early env iframe_locator) (\<lambda>subscribe_button_early.
                case subscribe_button_early of
                  None \<Rightarrow> ret ()
                | Some button \<Rightarrow>
                    seq (click_subscribe_early env button)
                        (verify_existing_card env account_info iframe_locator)))
             (\<lambda>e. ret ())))
       (\<lambda>e. ret ())"

text \<open>Lines 497 to 511: nothing in this \<open>try\<close> queries the page.\<close>

definition locate_iframe :: "(state, scope) prog" where
  "locate_iframe =
     try_except
       (seq (sleep 3000) (seq (sleep 3000) (ret (FrameLocator payment_iframe))))
       (\<lambda>e. early_return (False, IframeNotFound))"

text \<open>Lines 513 to 581: the Add card button and the frame of the card form.\<close>

definition open_card_form :: "env \<Rightarrow> scope \<Rightarrow> (state, frame option) prog" where
  "open_card_form env iframe_locator =
     try_except
       (seq (sleep 3000)
       (seq (ignore (find_first (\<lambda>selector.
               try_bare
                 (let element = First (Locator iframe_locator selector) in
                  bind (count env element) (\<lambda>n.
                    if n > 0 then seq (click env element) (ret (Some ())) else ret None))
                 (ret None)) add_card_selectors))
       (seq (sleep 5000)
       (seq (screenshot env ''step3_card_form_in_iframe.png'')
       (bind (frames env) (\<lambda>fs.
          case find (\<lambda>frame. py_in ''instrumentmanager'' (url frame)) fs of
            Some frame \<Rightarrow> ret (Some frame)
          | None \<Rightarrow>
              seq (sleep 3000)
                (bind (frames env) (\<lambda>fs.
                   ret (find (\<lambda>frame. py_in ''instrumentmanager'' (url frame) \<or>
                                     py_in ''payments.google.com'' (url frame)) fs)))))))))
       (\<lambda>e. seq (screenshot env ''error_iframe_add_card.png'')
                (early_return (False, AddCardFailed e)))"

text \<open>
  Lines 493 to 585, what follows the pre-check: the payment frame, the Add card
  button and the frame of the card form, up to the \<open>print\<close> of line 584, which reads
  \<open>card_info['number']\<close> outside every inner \<open>try\<close>.
\<close>

definition find_card_form :: "env \<Rightarrow> dict \<Rightarrow> (state, frame) prog" where
  "find_card_form env card_info =
     bind locate_iframe (\<lambda>iframe_locator.
     bind (open_card_form env iframe_locator) (\<lambda>card_form_frame.
       case card_form_frame of
         None \<Rightarrow> early_return (False, CardFormFrameNotFound)
       | Some frame \<Rightarrow>
           seq (dict_item card_info ''number'') (seq (sleep 2000) (ret frame))))"

text \<open>Lines 158 to 585.\<close>

definition before_card_entry :: "env \<Rightarrow> dict \<Rightarrow> dict option \<Rightarrow> (state, frame) prog" where
  "before_card_entry env card_info account_info =
     seq (before_precheck env account_info)
    (seq (precheck env account_info)
         (find_card_form env card_info))"

text \<open>Lines 587 to 612. The value is \<open>input_count\<close>.\<close>

definition all_inputs :: "frame \<Rightarrow> locator" where
  "all_inputs card_form_frame = Locator (InFrame card_form_frame) ''input''"

definition fill_card_number :: "env \<Rightarrow> frame \<Rightarrow> dict \<Rightarrow> (state, nat) prog" where
  "fill_card_number env card_form_frame card_info =
     try_except
       (bind (count env (all_inputs card_form_frame)) (\<lambda>input_count.
          if input_count < 3 then early_return (False, TooFewInputs input_count)
          else
            (let card_number_input = Nth (all_inputs card_form_frame) 0 in
             seq (click env card_number_input)
            (bind (dict_item card_info ''number'') (\<lambda>number.
             seq (fill env card_number_input number)
            (seq (sleep 500) (ret input_count)))))))
       (\<lambda>e. early_return (False, FillNumberFailed e))"

text \<open>Lines 614 to 631.\<close>

definition fill_exp_date :: "env \<Rightarrow> frame \<Rightarrow> dict \<Rightarrow> (state, unit) prog" where
  "fill_exp_date env card_form_frame card_info =
     (case normalize_exp_parts (dict_get_default card_info ''exp_month'' [])
                               (dict_get_default card_info ''exp_year'' []) of
        (exp_month, exp_year) \<Rightarrow>
          try_except
            (let exp_date_input = Nth (all_inputs card_form_frame) 1 in
             block [click env exp_date_input,
                    fill env exp_date_input (exp_month @ exp_year),
                    sleep 500])
            (\<lambda>e. early_return (False, FillExpFailed e)))"

text \<open>Lines 633 to 645; the \<open>print\<close> of line 634 reads \<open>card_info['cvv']\<close>.\<close>

definition fill_cvv :: "env \<Rightarrow> frame \<Rightarrow> dict \<Rightarrow> (state, unit) prog" where
  "fill_cvv env card_form_frame card_info =
     seq (dict_item card_info ''cvv'')
       (try_except
          (let cvv_input = Nth (all_inputs card_form_frame) 2 in
           bind (dict_item card_info ''cvv'') (\<lambda>cvv.
             block [click env cvv_input, fill env cvv_input cvv, sleep 500]))
          (\<lambda>e. early_return (False, FillCvvFailed e)))"

text \<open>Lines 647 to 664.\<close>

definition fill_zip :: "env \<Rightarrow> frame \<Rightarrow> dict \<Rightarrow> nat \<Rightarrow> (state, unit) prog" where
  "fill_zip env card_form_frame card_info input_count =
     (let zip_code = dict_get_default card_info ''zip'' [] in
      if zip_code \<noteq> []
      then try_except
             (seq (find_first (\<lambda>i.
                     let zip_input = Nth (all_inputs card_form_frame) i in
                     bind (get_attribute env zip_input ''type'') (\<lambda>input_type.
                       if input_type = Some ''tel'' \<or> i = input_count - 1
                       then seq (click env zip_input)
                           (seq (fill env zip_input zip_code) (ret (Some ())))
                       else ret None)) [3 ..< input_count])
                  (sleep 500))
             (\<lambda>e. ret ())
      else ret ())"

text \<open>Lines 587 to 664: the card-entry stage.\<close>

definition card_entry :: "env \<Rightarrow> frame \<Rightarrow> dict \<Rightarrow> (state, unit) prog" where
  "card_entry env card_form_frame card_info =
     bind (fill_card_number env card_form_frame card_info) (\<lambda>input_count.
     seq (fill_exp_date env card_form_frame card_info)
    (seq (fill_cvv env card_form_frame card_info)
         (fill_zip env card_form_frame card_info input_count)))"

text \<open>Lines 666 to 697.\<close>

definition click_save_card :: "env \<Rightarrow> frame \<Rightarrow> (state, unit) prog" where
  "click_save_card env card_form_frame =
     try_except
       (bind (find_first (\<lambda>selector.
                try_bare
                  (let element = First (Locator (InFrame card_form_frame) selector) in
                   bind (count env element) (\<lambda>n. if n > 0 then ret (Some element) else ret None))
                  (ret None)) save_selectors) (\<lambda>save_button.
          case save_button of
            None \<Rightarrow> early_return (False, SaveButtonNotFound)
          | Some button \<Rightarrow> click env button))
       (\<lambda>e. early_return (False, SaveClickFailed e))"

text \<open>Lines 158 to 703: every stage before the final subscription.\<close>

definition through_save :: "env \<Rightarrow> dict \<Rightarrow> dict option \<Rightarrow> (state, unit) prog" where
  "through_save env card_info account_info =
     bind (before_card_entry env card_info account_info) (\<lambda>card_form_frame.
       block
         [card_entry env card_form_frame card_info,
          click_save_card env card_form_frame,
          sleep 8000,
          screenshot env ''step7_before_subscribe.png''])"

text \<open>
  Lines 732 to 774: the subscribe button, looked for in the payment frame and then on
  the page, and the click on it. The value says whether a button was found.
\<close>

definition press_subscribe :: "env \<Rightarrow> (state, bool) prog" where
  "press_subscribe env =
     bind (try_except
             (let iframe_locator_subscribe = FrameLocator payment_iframe in
              find_first (\<lambda>selector.
                try_bare
                  (let element = First (Locator iframe_locator_subscribe selector) in
                   bind (count env element) (\<lambda>n. if n > 0 then ret (Some element) else ret None))
                  (ret None)) subscribe_selectors_step7)
             (\<lambda>e. ret None)) (\<lambda>found.
     bind (case found of
             Some element \<Rightarrow> ret (Some element)
           | None \<Rightarrow>
               find_first (\<lambda>selector.
                 try_except
                   (let element = First (Locator Page selector) in
                    bind (count env element) (\<lambda>n. if n > 0 then ret (Some element) else ret None))
                   (\<lambda>e. ret None)) subscribe_selectors_step7) (\<lambda>subscribe_button.
       case subscribe_button of
         None \<Rightarrow> ret False
       | Some button \<Rightarrow>
           seq (sleep 2000)
          (seq (click env button)
          (seq (sleep 10000)
          (seq (screenshot env ''step8_after_subscribe.png'')
               (ret True))))))"

text \<open>Lines 777 to 815.\<close>

definition scan_subscribed :: "env \<Rightarrow> (state, bool) prog" where
  "scan_subscribed env =
     (let iframe_locator_final = FrameLocator payment_iframe in
      bind (find_first (\<lambda>selector.
              try_bare
                (let element = First (Locator iframe_locator_final selector) in
                 bind (count env element) (\<lambda>n. if n > 0 then ret (Some ()) else ret None))
                (ret None)) subscribed_selectors) (\<lambda>found.
        ret (found \<noteq> None)))"

definition verify_subscription :: "env \<Rightarrow> dict option \<Rightarrow> (state, unit) prog" where
  "verify_subscription env account_info =
     try_except
       (bind (scan_subscribed env) (\<lambda>subscribed_found.
          if subscribed_found
          then seq (mark_subscribed env account_info) (early_return (True, SubscribedConfirmed))
          else seq (mark_subscribed env account_info) (early_return (True, SubscribedAssumed))))
       (\<lambda>e. early_return (True, SubscribedAssumed))"

text \<open>Lines 705 to 826.\<close>

definition subscribe_and_verify :: "env \<Rightarrow> dict option \<Rightarrow> (state, unit) prog" where
  "subscribe_and_verify env account_info =
     try_except
       (bind (press_subscribe env) (\<lambda>pressed.
          if pressed then verify_subscription env account_info
          else early_return (True, BindOk)))
       (\<lambda>e. early_return (True, BindDone))"

definition effective_card :: "env \<Rightarrow> dict option \<Rightarrow> dict" where
  "effective_card env card_info = (case card_info of None \<Rightarrow> default_card env | Some c \<Rightarrow> c)"

definition auto_bind_card :: "env \<Rightarrow> dict option \<Rightarrow> dict option \<Rightarrow> (state, outcome option) prog" where
  "auto_bind_card env card_info account_info =
     call_fn
       (try_except
          (seq (through_save env (effective_card env card_info) account_info)
               (subscribe_and_verify env account_info))
          (\<lambda>e. early_return (False, BindError e)))"

section \<open>The browser session: \<open>test_bind_card_with_browser\<close> and \<open>bind_card_sync\<close>\<close>

text \<open>
  The calls below the page: the window list of \<open>create_window\<close>, the provisioner
  \<open>bit_api\<close>, the Playwright driver and browser, the clock and the log file. They are
  recorded apart from the calls on the page, which \<open>auto_bind_card\<close> alone makes.
  \<open>openBrowser\<close> answers a dictionary; the code reads its \<open>success\<close> flag
  (\<open>open_success\<close>) and the \<open>ws\<close> entry of its \<open>data\<close> (\<open>open_ws\<close>). \<open>log\<close> prints, or calls the caller's callback, and is
  left out like \<open>print\<close>.
\<close>

record open_reply =
  open_success :: bool
  open_ws :: "string option"

datatype sys_call =
    GetBrowserInfo string
  | OpenBrowser string
  | CloseBrowser string
  | PlaywrightStart
  | PlaywrightStop
  | ConnectOverCdp string
  | Contexts
  | Pages
  | NewPage
  | Goto string
  | BrowserClose
  | OpenAppend string string
  | Now
  | Write string

record sys =
  pg :: state
  sys_trace :: "sys_call list"

record sys_env =
  page_env :: env
  info_result :: "nat \<Rightarrow> sys_call \<Rightarrow> exn + dict option"
  open_result :: "nat \<Rightarrow> sys_call \<Rightarrow> exn + open_reply"
  sys_unit_result :: "nat \<Rightarrow> sys_call \<Rightarrow> exn + unit"
  contexts_result :: "nat \<Rightarrow> nat"
  pages_result :: "nat \<Rightarrow> nat"
  now_result :: "nat \<Rightarrow> string"

definition sys_made :: "sys_call \<Rightarrow> sys \<Rightarrow> sys" where
  "sys_made c s = s\<lparr>pg := (pg s)\<lparr>clock := Suc (clock (pg s))\<rparr>, sys_trace := sys_trace s @ [c]\<rparr>"

definition sys_perform :: "(nat \<Rightarrow> sys_call \<Rightarrow> exn + 'a) \<Rightarrow> sys_call \<Rightarrow> (sys, 'a) prog" where
  "sys_perform answer c =
     (\<lambda>s. (case answer (clock (pg s)) c of Inl e \<Rightarrow> Exc e | Inr v \<Rightarrow> Val v, sys_made c s))"

text \<open>A program on the page, run within the session.\<close>

definition lift :: "(state, 'a) prog \<Rightarrow> (sys, 'a) prog" where
  "lift m = (\<lambda>s. case m (pg s) of (r, p) \<Rightarrow> (r, s\<lparr>pg := p\<rparr>))"

definition get_browser_info :: "sys_env \<Rightarrow> string \<Rightarrow> (sys, dict option) prog" where
  "get_browser_info env browser_id = sys_perform (info_result env) (GetBrowserInfo browser_id)"

definition openBrowser :: "sys_env \<Rightarrow> string \<Rightarrow> (sys, open_reply) prog" where
  "openBrowser env browser_id = sys_perform (open_result env) (OpenBrowser browser_id)"

definition closeBrowser :: "sys_env \<Rightarrow> string \<Rightarrow> (sys, unit) prog" where
  "closeBrowser env browser_id = sys_perform (sys_unit_result env) (CloseBrowser browser_id)"

definition connect_over_cdp :: "sys_env \<Rightarrow> string \<Rightarrow> (sys, unit) prog" where
  "connect_over_cdp env ws_endpoint = sys_perform (sys_unit_result env) (ConnectOverCdp ws_endpoint)"

definition contexts :: "sys_env \<Rightarrow> (sys, nat) prog" where
  "contexts env = sys_perform (\<lambda>t c. Inr (contexts_result env t)) Contexts"

definition pages :: "sys_env \<Rightarrow> (sys, nat) prog" where
  "pages env = sys_perform (\<lambda>t c. Inr (pages_result env t)) Pages"

definition new_page :: "sys_env \<Rightarrow> (sys, unit) prog" where
  "new_page env = sys_perform (sys_unit_result env) NewPage"

definition goto :: "sys_env \<Rightarrow> string \<Rightarrow> (sys, unit) prog" where
  "goto env target = sys_perform (sys_unit_result env) (Goto target)"

definition browser_close :: "sys_env \<Rightarrow> (sys, unit) prog" where
  "browser_close env = sys_perform (sys_unit_result env) BrowserClose"

definition open_append :: "sys_env \<Rightarrow> string \<Rightarrow> string \<Rightarrow> (sys, unit) prog" where
  "open_append env path encoding = sys_perform (sys_unit_result env) (OpenAppend path encoding)"

definition now :: "sys_env \<Rightarrow> (sys, string) prog" where
  "now env = sys_perform (\<lambda>t c. Inr (now_result env t)) Now"

definition write_line :: "sys_env \<Rightarrow> string \<Rightarrow> (sys, unit) prog" where
  "write_line env line = sys_perform (sys_unit_result env) (Write line)"

text \<open>\<open>async with async_playwright() as p: body\<close>\<close>

definition with_playwright :: "sys_env \<Rightarrow> (sys, 'a) prog \<Rightarrow> (sys, 'a) prog" where
  "with_playwright env body =
     seq (sys_perform (sys_unit_result env) PlaywrightStart)
         (try_finally body (sys_perform (sys_unit_result env) PlaywrightStop))"

definition target_url :: string where
  "target_url = ''https://one.google.com/ai-student?g1_landing_page=75&utm_source=antigravity&utm_campaign=argon_limit_reached''"

definition bound_cards_file :: string where
  "bound_cards_file = ''<U+5DF2><U+7ED1><U+5361><U+53F7>.txt''"

text \<open>
  \<open>parts[i].strip() if len(parts) > i else ''\<close>, and the account dictionary of lines
  951 to 956, from the remark of the browser window.
\<close>

definition part_or_empty :: "string list \<Rightarrow> nat \<Rightarrow> string" where
  "part_or_empty parts i = (if i < length parts then py_strip (parts ! i) else [])"

definition account_of_remark :: "string \<Rightarrow> dict" where
  "account_of_remark remark =
     (let parts = split_from ''----'' [] remark in
      [(''email'', part_or_empty parts 0),
       (''password'', part_or_empty parts 1),
       (''backup'', part_or_empty parts 2),
       (''secret'', part_or_empty parts 3)])"

text \<open>
  Lines 989 to 995: the line appended to the file of bound cards. \<open>card_last4\<close> is
  \<open>card_info.get('number', '')[-4:] if card_info else 'N/A'\<close>.
\<close>

definition card_last4 :: "dict option \<Rightarrow> string" where
  "card_last4 card_info =
     (case card_info of
        None \<Rightarrow> ''N/A''
      | Some c \<Rightarrow> if c \<noteq> [] then last_n 4 (dict_get_default c ''number'' []) else ''N/A'')"

definition bound_line :: "dict \<Rightarrow> dict option \<Rightarrow> string \<Rightarrow> string" where
  "bound_line account_info card_info timestamp =
     dict_get_default account_info ''email'' [] @ ''----'' @ card_last4 card_info @ ''----'' @
     timestamp @ [CHR 0x0A]"

definition record_bind :: "sys_env \<Rightarrow> dict \<Rightarrow> dict option \<Rightarrow> (sys, unit) prog" where
  "record_bind env account_info card_info =
     seq (open_append env bound_cards_file ''utf-8'')
         (bind (now env) (\<lambda>timestamp. write_line env (bound_line account_info card_info timestamp)))"

text \<open>
  \<open>context = browser.contexts[0]\<close> and
  \<open>page = context.pages[i] if context.pages else await context.new_page()\<close>.
\<close>

definition first_page :: "sys_env \<Rightarrow> (sys, unit) prog" where
  "first_page env =
     bind (contexts env) (\<lambda>n.
       if n = 0 then raise (Exn ''IndexError: list index out of range'')
       else bind (pages env) (\<lambda>p.
              if p > 0
              then bind (pages env) (\<lambda>q.
                     if q = 0 then raise (Exn ''IndexError: list index out of range'') else ret ())
              else new_page env))"

text \<open>Lines 975 to 997, the body of the inner \<open>try\<close> of \<open>bind_card_sync\<close>.\<close>

definition session_body :: "sys_env \<Rightarrow> dict option \<Rightarrow> dict \<Rightarrow> (sys, unit) prog" where
  "session_body env card_info account_info =
     seq (first_page env)
    (seq (goto env target_url)
    (seq (sleep 5000)
    (bind (lift (auto_bind_card (page_env env) card_info (Some account_info))) (\<lambda>r.
       case r of
         None \<Rightarrow> raise (Exn ''TypeError: cannot unpack non-iterable NoneType object'')
       | Some (success, message) \<Rightarrow>
           seq (if success then record_bind env account_info card_info else ret ())
               (early_return (success, message))))))"

text \<open>Lines 940 to 1011.\<close>

definition bind_card_sync ::
  "sys_env \<Rightarrow> string \<Rightarrow> dict option \<Rightarrow> bool \<Rightarrow> (sys, outcome option) prog" where
  "bind_card_sync env browser_id card_info close_after =
     call_fn
       (bind (get_browser_info env browser_id) (\<lambda>browser_info.
          case browser_info of
            None \<Rightarrow> early_return (False, BrowserInfoNotFound)
          | Some info \<Rightarrow>
              if info = [] then early_return (False, BrowserInfoNotFound)
              else
                (let account_info = account_of_remark (dict_get_default info ''remark'' []) in
                 bind (openBrowser env browser_id) (\<lambda>res.
                   if \<not> open_success res then early_return (False, CannotOpenBrowser)
                   else
                     (case open_ws res of
                        None \<Rightarrow>
                          seq (closeBrowser env browser_id) (early_return (False, NoWsEndpoint))
                      | Some ws_endpoint \<Rightarrow>
                          if ws_endpoint = []
                          then seq (closeBrowser env browser_id) (early_return (False, NoWsEndpoint))
                          else
                            try_finally
                              (try_except
                                 (with_playwright env
                                    (seq (connect_over_cdp env ws_endpoint)
                                       (try_finally
                                          (session_body env card_info account_info)
                                          (try_except (browser_close env) (\<lambda>e. ret ())))))
                                 (\<lambda>e. early_return (False, BindError e)))
                              (if close_after then closeBrowser env browser_id else ret ()))))))"

text \<open>
  Lines 846 to 868: without account data the remark of the window is read, and used
  when it has four parts.
\<close>

definition account_for_test :: "sys_env \<Rightarrow> string \<Rightarrow> dict option \<Rightarrow> (sys, dict option) prog" where
  "account_for_test env browser_id account_info =
     (if account_info = None \<or> account_info = Some []
      then bind (get_browser_info env browser_id) (\<lambda>target_browser.
             case target_browser of
               None \<Rightarrow> ret None
             | Some info \<Rightarrow>
                 if info = [] then ret None
                 else if length (split_from ''----'' [] (dict_get_default info ''remark'' [])) \<ge> 4
                 then ret (Some (account_of_remark (dict_get_default info ''remark'' [])))
                 else ret None)
      else ret account_info)"

text \<open>
  Lines 835 to 914. The \<open>finally\<close> clause is \<open>pass\<close>: the call of \<open>closeBrowser\<close> in
  it is commented out, with the remark that the browser stays open so that the result
  can be looked at.
\<close>

definition test_bind_card_with_browser ::
  "sys_env \<Rightarrow> string \<Rightarrow> dict option \<Rightarrow> (sys, outcome option) prog" where
  "test_bind_card_with_browser env browser_id account_info =
     call_fn
       (bind (account_for_test env browser_id account_info) (\<lambda>account_info.
        bind (openBrowser env browser_id) (\<lambda>result.
          if \<not> open_success result then early_return (False, OpenBrowserFailed)
          else
            (case open_ws result of
               None \<Rightarrow> raise (Exn ''KeyError: ws'')
             | Some ws_endpoint \<Rightarrow>
                 with_playwright env
                   (try_finally
                      (try_except
                         (seq (connect_over_cdp env ws_endpoint)
                         (seq (first_page env)
                         (seq (goto env target_url)
                         (seq (sleep 5000)
                         (bind (lift (auto_bind_card (page_env env) None account_info)) (\<lambda>r.
                            case r of
                              None \<Rightarrow> raise (Exn ''TypeError: cannot unpack non-iterable NoneType object'')
                            | Some (success, message) \<Rightarrow>
                                (early_return (True, message) :: (sys, unit) prog)))))))
                         (\<lambda>e. early_return (False, TestError e)))
                      (ret ()))))))"

section \<open>Environments for the examples\<close>

text \<open>
  Runs on which the theorems below are tried. In each the login field never shows
  (\<open>wait_for_selector\<close> times out), every element that is there is visible, no element
  has a \<open>type\<close> attribute, and the page does not change during the run:
  \<open>static_env\<close> takes the default card, the answer to each call that returns nothing,
  the number of elements each locator matches, and the frames of the page.
  \<^item> \<open>count_bound\<close>: the payment frame shows a subscribe button and the marker
    \<open>Subscribed\<close>, nothing matches on the page: a card is already bound.
  \<^item> \<open>count_soft\<close>: the payment frame shows a subscribe button and no marker.
  \<^item> \<open>count_form n\<close>: the card form frame has \<open>n\<close> input boxes and a submit button,
    and the payment frame shows a Start button and nothing else.
  In \<open>env_store_down\<close> the account store raises on every call, in
  \<open>env_page_closed\<close> every click, fill and screenshot raises. In \<open>env_login\<close> the
  e-mail field of the login page shows and no other element ever does.
\<close>

definition test_card :: dict where
  "test_card = [(''number'', ''4111111111111111''), (''exp_month'', ''25''),
                (''exp_year'', ''03''), (''cvv'', ''123''), (''zip'', ''10001'')]"

definition test_account :: dict where
  "test_account = [(''email'', ''a@x.com''), (''password'', ''pw''),
                   (''backup'', ''rec''), (''secret'', ''JBSW'')]"

definition init :: state where
  "init = \<lparr>clock = 0, trace = []\<rparr>"

definition static_env ::
  "dict \<Rightarrow> (call \<Rightarrow> exn + unit) \<Rightarrow> (call \<Rightarrow> nat) \<Rightarrow> frame list \<Rightarrow> env" where
  "static_env dflt answer matches fs =
     \<lparr>default_card = dflt,
      unit_result = (\<lambda>t c. answer c),
      count_result = (\<lambda>t c. Inr (matches c)),
      bool_result = (\<lambda>t c. Inr True),
      text_result = (\<lambda>t c. Inr None),
      handle_result = (\<lambda>t c. Inl (Exn ''TimeoutError'')),
      frames_result = (\<lambda>t. fs)\<rparr>"

definition all_ok :: "call \<Rightarrow> exn + unit" where
  "all_ok c = Inr ()"

definition form_frame :: frame where
  "form_frame = Frame 1 ''https://payments.google.com/instrumentmanager''"

definition subscribe_span :: locator where
  \<open>subscribe_span =
     First (Locator (FrameLocator payment_iframe) ''span.UywwFc-vQzf8d:has-text("Subscribe")'')\<close>

definition start_button :: locator where
  \<open>start_button = First (Locator (FrameLocator payment_iframe) ''button:has-text("Start")'')\<close>

definition count_bound :: "call \<Rightarrow> nat" where
  \<open>count_bound c =
     (if c = Count subscribe_span then 1
      else if c = Count (First (Locator (FrameLocator payment_iframe) '':text("Subscribed")''))
      then 1
      else 0)\<close>

definition count_soft :: "call \<Rightarrow> nat" where
  "count_soft c = (if c = Count subscribe_span then 1 else 0)"

definition count_form :: "nat \<Rightarrow> call \<Rightarrow> nat" where
  \<open>count_form n c =
     (if c = Count (all_inputs form_frame) then n
      else if c = Count (First (Locator (InFrame form_frame) ''button[type="submit"]'')) then 1
      else if c = Count start_button then 1
      else 0)\<close>

definition env_bound :: env where
  "env_bound = static_env test_card all_ok count_bound []"

definition env_soft :: env where
  "env_soft = static_env test_card all_ok count_soft []"

definition env_form :: "nat \<Rightarrow> env" where
  "env_form n = static_env test_card all_ok (count_form n) [form_frame]"


text \<open>
  A card form of six inputs of which the one at index 4 has the \<open>type\<close> \<open>tel\<close>,
  and a card whose month has three digits.
\<close>

definition env_tel :: env where
  "env_tel =
     (env_form 6)\<lparr>text_result :=
        (\<lambda>t c. if c = GetAttribute (Nth (all_inputs form_frame) 4) ''type''
               then Inr (Some ''tel'') else Inr None)\<rparr>"

definition long_month_card :: dict where
  "long_month_card = [(''number'', ''4111111111111111''), (''exp_month'', ''123''),
                      (''exp_year'', ''2026''), (''cvv'', ''123'')]"

text \<open>
  The page of the bound card on which the screenshot taken after the click on the
  subscribe button (line 337) raises.
\<close>

definition shot_fails :: "call \<Rightarrow> exn + unit" where
  "shot_fails c =
     (if c = Screenshot ''step_subscribe_existing_card.png''
      then Inl (Exn ''Error: Page.screenshot: Timeout 30000ms exceeded'')
      else Inr ())"

definition env_shot_fails :: env where
  "env_shot_fails = static_env test_card shot_fails count_bound []"






text \<open>
  The states of a run from \<open>init\<close> in which the pre-check finds the subscribe button:
  after the scan for the marker \<open>Subscribed\<close>, and after the scan for an error marker
  that follows it. And the states of a run that saves a card: at the card form, after
  the click on the subscribe button, and after the scan for the marker.
\<close>

definition at_subscribe_button :: "env \<Rightarrow> dict option \<Rightarrow> state" where
  "at_subscribe_button env account_info =
     snd (find_subscribe_early env (FrameLocator payment_iframe)
       (snd (before_precheck env account_info init)))"

definition after_marker_scan :: "env \<Rightarrow> dict option \<Rightarrow> state" where
  "after_marker_scan env account_info =
     snd (scan_markers env [FrameLocator payment_iframe, Page] subscribed_selectors
       (snd (click_subscribe_early env subscribe_span
         (snd (find_subscribe_early env (FrameLocator payment_iframe)
           (snd (before_precheck env account_info init)))))))"

definition after_error_scan :: "env \<Rightarrow> dict option \<Rightarrow> state" where
  "after_error_scan env account_info =
     snd (scan_markers env [FrameLocator payment_iframe, Page] error_selectors
       (after_marker_scan env account_info))"

definition at_card_form :: "env \<Rightarrow> dict option \<Rightarrow> state" where
  "at_card_form env account_info = snd (before_card_entry env test_card account_info init)"

definition after_final_scan :: "env \<Rightarrow> dict option \<Rightarrow> state" where
  "after_final_scan env account_info =
     snd (scan_subscribed env
       (snd (press_subscribe env
         (snd (through_save env test_card account_info init)))))"

section \<open>Notions used in the statements\<close>

text \<open>
  \<open>never_val m\<close>: the program \<open>m\<close> never runs off its end; it returns or raises.
  \<open>raises_base_only m\<close>: whatever \<open>m\<close> raises is no \<open>Exception\<close>.
\<close>

definition never_val :: "('s, 'a) prog \<Rightarrow> bool" where
  "never_val m \<longleftrightarrow> (\<forall>s v s'. m s \<noteq> (Val v, s'))"


text \<open>
  \<open>never_ret m\<close>: the program \<open>m\<close> executes no \<open>return\<close>.
  \<open>succeeds_or_raises m\<close>: it does not run off its end, and what it returns is a
  pair whose first component is \<open>True\<close>.
\<close>

definition never_ret :: "('s, 'a) prog \<Rightarrow> bool" where
  "never_ret m \<longleftrightarrow> (\<forall>s r s'. m s \<noteq> (Ret r, s'))"


text \<open>
  \<open>preserves obs m\<close>: whatever \<open>m\<close> does, the observation \<open>obs\<close> of the state is
  the same after it as before. The observations used are the calls made to the account
  store, to \<open>closeBrowser\<close>, and to the log file.
\<close>

definition preserves :: "('s \<Rightarrow> 'o) \<Rightarrow> ('s, 'a) prog \<Rightarrow> bool" where
  "preserves obs m \<longleftrightarrow> (\<forall>s r s'. m s = (r, s') \<longrightarrow> obs s' = obs s)"

definition is_move :: "call \<Rightarrow> bool" where
  "is_move c = (case c of MoveToSubscribed line \<Rightarrow> True | _ \<Rightarrow> False)"

definition store_calls :: "state \<Rightarrow> call list" where
  "store_calls s = filter is_move (trace s)"

text \<open>
  What \<open>mark_subscribed\<close> followed by \<open>return (True, message)\<close> comes to inside a
  \<open>try\<close> whose handler returns \<open>(True, fallback)\<close>, seen from the caller of
  \<open>auto_bind_card\<close>: the account store is called when \<open>account_info\<close> holds an
  e-mail address; an \<open>Exception\<close> of the store turns the message into the fallback,
  and only an exception that is no \<open>Exception\<close> reaches the caller.
\<close>

definition store_then_return ::
  "env \<Rightarrow> dict option \<Rightarrow> msg \<Rightarrow> msg \<Rightarrow> state \<Rightarrow> outcome option res \<times> state" where
  "store_then_return env account_info message fallback s =
     (case account_info of
        None \<Rightarrow> (Val (Some (True, message)), s)
      | Some acct \<Rightarrow>
          if acct \<noteq> [] \<and> truthy (dict_get acct ''email'')
          then (case unit_result env (clock s) (MoveToSubscribed (account_line acct)) of
                  Inr u \<Rightarrow> (Val (Some (True, message)), made (MoveToSubscribed (account_line acct)) s)
                | Inl (Exn x) \<Rightarrow>
                    (Val (Some (True, fallback)), made (MoveToSubscribed (account_line acct)) s)
                | Inl (BaseExn x) \<Rightarrow>
                    (Exc (BaseExn x), made (MoveToSubscribed (account_line acct)) s))
          else (Val (Some (True, message)), s))"

section \<open>Notions used in the statements about the session\<close>

text \<open>
  The calls to \<open>closeBrowser\<close> made so far, and the calls on the file of bound cards:
  its opening for appending and the lines written to it.
\<close>

definition is_close :: "sys_call \<Rightarrow> bool" where
  "is_close c = (case c of CloseBrowser browser_id \<Rightarrow> True | _ \<Rightarrow> False)"

definition close_calls :: "sys \<Rightarrow> sys_call list" where
  "close_calls s = filter is_close (sys_trace s)"





text \<open>
  The reply of \<open>openBrowser\<close> in a run of \<open>bind_card_sync\<close> from the state \<open>s\<close>,
  when the run gets a browser session: the window is known, and \<open>openBrowser\<close>
  answers with \<open>success\<close> set.
\<close>

definition open_reply_at :: "sys_env \<Rightarrow> string \<Rightarrow> sys \<Rightarrow> open_reply option" where
  "open_reply_at env browser_id s =
     (case info_result env (clock (pg s)) (GetBrowserInfo browser_id) of
        Inr (Some info) \<Rightarrow>
          if info = [] then None
          else (case open_result env (Suc (clock (pg s))) (OpenBrowser browser_id) of
                  Inr res \<Rightarrow> if open_success res then Some res else None
                | Inl e \<Rightarrow> None)
      | _ \<Rightarrow> None)"

text \<open>
  A session in which every call goes through: the window \<open>b1\<close> has the remark of an
  account, \<open>openBrowser\<close> gives an endpoint, the browser has one context with one
  page, and the page is the card form of \<open>env_form 4\<close>. In \<open>env_no_cdp\<close> the
  connection to the endpoint is refused.
\<close>

definition sys_init :: sys where
  "sys_init = \<lparr>pg = init, sys_trace = []\<rparr>"

definition ws_b1 :: string where
  "ws_b1 = ''ws://127.0.0.1:9222/devtools/browser/b1''"

definition env_session :: sys_env where
  "env_session =
     \<lparr>page_env = env_form 4,
      info_result = (\<lambda>t c. Inr (Some [(''remark'', ''a@x.com----pw----rec----JBSW'')])),
      open_result = (\<lambda>t c. Inr \<lparr>open_success = True, open_ws = Some ws_b1\<rparr>),
      sys_unit_result = (\<lambda>t c. Inr ()),
      contexts_result = (\<lambda>t. 1),
      pages_result = (\<lambda>t. 1),
      now_result = (\<lambda>t. ''2025-01-01 12:00:00'')\<rparr>"

definition env_no_cdp :: sys_env where
  "env_no_cdp =
     env_session\<lparr>sys_unit_result :=
       (\<lambda>t c. case c of
                 ConnectOverCdp ws_endpoint \<Rightarrow> Inl (Exn ''Error: connect ECONNREFUSED'')
               | _ \<Rightarrow> Inr ())\<rparr>"

section \<open>Expiry normalisation: proofs\<close>

lemma isspace_not_digit: "py_isspace c \<Longrightarrow> \<not> py_isdigit c"
  by (auto simp: py_isspace_def py_isdigit_def Let_def)

lemma filter_dropWhile_disjoint:
  "(\<And>x. Q x \<Longrightarrow> \<not> P x) \<Longrightarrow> filter P (dropWhile Q xs) = filter P xs"
  by (induction xs) auto

lemma digits_strip: "filter py_isdigit (py_strip s) = digits_of s"
proof -
  have "filter py_isdigit (py_strip s) = rev (filter py_isdigit (dropWhile py_isspace (rev (dropWhile py_isspace s))))"
    by (simp add: py_strip_def rev_filter)
  also have "\<dots> = rev (filter py_isdigit (rev (dropWhile py_isspace s)))"
    by (simp add: filter_dropWhile_disjoint isspace_not_digit)
  also have "\<dots> = filter py_isdigit (dropWhile py_isspace s)"
    by (simp add: rev_filter)
  also have "\<dots> = digits_of s"
    by (simp add: filter_dropWhile_disjoint isspace_not_digit digits_of_def)
  finally show ?thesis .
qed

lemma digits_val_snoc: "digits_val (s @ [c]) = 10 * digits_val s + digit_val c"
  by (simp add: digits_val_def)

lemma digits_val_append:
  "digits_val (s @ t) = digits_val s * 10 ^ length t + digits_val t"
proof (induction t rule: rev_induct)
  case Nil
  show ?case by (simp add: digits_val_def)
next
  case (snoc c t)
  have "digits_val (s @ t @ [c]) = 10 * digits_val (s @ t) + digit_val c"
    using digits_val_snoc [of "s @ t" c] by simp
  then show ?case
    by (simp add: snoc.IH digits_val_snoc algebra_simps)
qed

lemma digit_val_bound: "py_isdecimal c \<Longrightarrow> digit_val c < 10"
  by (auto simp: py_isdecimal_def digit_val_def Let_def)

lemma digits_val_bound: "list_all py_isdecimal s \<Longrightarrow> digits_val s < 10 ^ length s"
proof (induction s rule: rev_induct)
  case Nil
  show ?case by (simp add: digits_val_def)
next
  case (snoc c s)
  then have "digits_val s < 10 ^ length s" and "digit_val c < 10"
    by (simp_all add: digit_val_bound)
  then have "10 * digits_val s + digit_val c < 10 * 10 ^ length s"
    by arith
  then show ?case by (simp add: digits_val_snoc)
qed

lemma last_n_split: "k \<le> length s \<Longrightarrow> s = take (length s - k) s @ last_n k s"
  by (simp add: last_n_def)

lemma digits_val_last2:
  assumes "list_all py_isdecimal s" and "2 \<le> length s"
  shows "digits_val (last_n 2 s) = digits_val s mod 100"
proof -
  have len: "length (last_n 2 s) = 2" using assms(2) by (simp add: last_n_def)
  have dec: "list_all py_isdecimal (last_n 2 s)"
    using assms(1) by (simp add: last_n_def list_all_iff) (meson in_set_dropD)
  have "digits_val s = digits_val (take (length s - 2) s @ last_n 2 s)"
    using last_n_split [OF assms(2)] by simp
  also have "\<dots> = digits_val (take (length s - 2) s) * 100 + digits_val (last_n 2 s)"
    by (simp add: digits_val_append len)
  finally have eq: "digits_val s = digits_val (take (length s - 2) s) * 100 + digits_val (last_n 2 s)" .
  have "digits_val (last_n 2 s) < 100"
    using digits_val_bound [OF dec] len by simp
  with eq show ?thesis by simp
qed

lemma of_char_digit_char: "d < 10 \<Longrightarrow> of_char (digit_char d) = 48 + d"
  by (simp add: digit_char_def)

lemma digit_char_decimal: "d < 10 \<Longrightarrow> py_isdecimal (digit_char d)"
  by (simp add: py_isdecimal_def of_char_digit_char)

lemma digit_val_digit_char: "d < 10 \<Longrightarrow> digit_val (digit_char d) = d"
  by (simp add: digit_val_def of_char_digit_char)

lemma py_str_decimal: "list_all py_isdecimal (py_str n)"
proof (induction n rule: py_str.induct)
  case (1 n)
  show ?case
  proof (cases "n < 10")
    case True
    then show ?thesis by (simp add: py_str.simps [of n] digit_char_decimal)
  next
    case False
    with 1 show ?thesis by (simp add: py_str.simps [of n] digit_char_decimal)
  qed
qed

lemma py_str_val: "digits_val (py_str n) = n"
proof (induction n rule: py_str.induct)
  case (1 n)
  show ?case
  proof (cases "n < 10")
    case True
    then show ?thesis by (simp add: py_str.simps [of n] digits_val_def digit_val_digit_char)
  next
    case False
    with 1 show ?thesis by (simp add: py_str.simps [of n] digits_val_snoc digit_val_digit_char)
  qed
qed

lemma py_str_nonempty: "py_str n \<noteq> []"
  by (subst py_str.simps) simp

lemma py_str_length: "10 \<le> n \<Longrightarrow> 2 \<le> length (py_str n)"
  using py_str_nonempty [of "n div 10"]
  by (subst py_str.simps) (cases "py_str (n div 10)"; simp)

lemma py_int_decimal:
  "s \<noteq> [] \<Longrightarrow> list_all py_isdecimal s \<Longrightarrow> length s \<le> int_max_str_digits \<Longrightarrow>
   py_int s = Some (digits_val s)"
  by (simp add: py_int_def)

lemma py_int_SomeD: "py_int s = Some a \<Longrightarrow> s \<noteq> [] \<and> list_all py_isdecimal s \<and> digits_val s = a"
  by (auto simp: py_int_def split: if_splits)

lemma zero_decimal: "py_isdecimal (CHR ''0'')"
  by (simp add: py_isdecimal_def)

lemma digits_val_zero_cons: "digits_val (CHR ''0'' # s) = digits_val s"
  using digits_val_append [of "''0''" s] by (simp add: digits_val_def digit_val_def)


lemma normalize_unfold:
  "normalize_exp_parts m y =
    (let M = pad_single_digit (digits_of m);
         Y = pad_single_digit (truncate_long_year (digits_of y))
     in case (if M \<noteq> [] then py_int M else Some 0) of
          None \<Rightarrow> (M, Y)
        | Some mm_i \<Rightarrow>
           (case (if Y \<noteq> [] then py_int Y else Some 0) of
              None \<Rightarrow> (M, Y)
            | Some yy_i \<Rightarrow>
               if mm_i > 12 \<and> 1 \<le> yy_i \<and> yy_i \<le> 12
               then (zfill 2 Y, last_n 2 (py_str mm_i))
               else (M, Y)))"
  by (simp add: normalize_exp_parts_def digits_strip Let_def pad_single_digit_def
      truncate_long_year_def cong: option.case_cong if_cong)

lemma py_int_pad: "py_int s = Some a \<Longrightarrow> py_int (pad_single_digit s) = Some a"
  by (auto simp: py_int_def pad_single_digit_def digits_val_zero_cons zero_decimal
      int_max_str_digits_def split: if_splits)

lemma py_int_pad_None:
  "s \<noteq> [] \<Longrightarrow> py_int s = None \<Longrightarrow> py_int (pad_single_digit s) = None"
  by (auto simp: py_int_def pad_single_digit_def split: if_splits)

lemma last_n_decimal: "list_all py_isdecimal s \<Longrightarrow> list_all py_isdecimal (last_n k s)"
  by (simp add: last_n_def list_all_iff) (meson in_set_dropD)

lemma py_int_truncate:
  assumes "py_int s = Some b" and "b < 100"
  shows "py_int (truncate_long_year s) = Some b"
proof (cases "4 \<le> length s")
  case False
  then show ?thesis using assms by (simp add: truncate_long_year_def)
next
  case True
  from assms(1) have dec: "list_all py_isdecimal s" and val: "digits_val s = b"
    by (auto dest: py_int_SomeD)
  have "digits_val (last_n 2 s) = b"
    using digits_val_last2 [OF dec] True val assms(2) by simp
  moreover have "last_n 2 s \<noteq> []" using True by (simp add: last_n_def)
  ultimately show ?thesis
    using True last_n_decimal [OF dec, of 2]
    by (simp add: truncate_long_year_def py_int_def last_n_def int_max_str_digits_def)
qed

lemma py_int_single_small:
  assumes "py_int s = Some a" and "length s = 1"
  shows "a < 10"
proof -
  from assms(1) have "list_all py_isdecimal s" and "digits_val s = a"
    by (auto dest: py_int_SomeD)
  then show ?thesis using digits_val_bound [of s] assms(2) by simp
qed

lemma pad_length: "length (pad_single_digit s) \<noteq> 1"
  by (simp add: pad_single_digit_def)

lemma zfill_id: "2 \<le> length s \<Longrightarrow> zfill 2 s = s"
  by (simp add: zfill_def)

lemma py_int_last2_str:
  assumes "10 \<le> a"
  shows "py_int (last_n 2 (py_str a)) = Some (a mod 100) \<and> length (last_n 2 (py_str a)) = 2"
proof -
  have len: "2 \<le> length (py_str a)" using assms by (rule py_str_length)
  then have "last_n 2 (py_str a) \<noteq> []" and "length (last_n 2 (py_str a)) = 2"
    by (auto simp: last_n_def)
  moreover have "digits_val (last_n 2 (py_str a)) = a mod 100"
    using digits_val_last2 [OF py_str_decimal len] by (simp add: py_str_val)
  ultimately show ?thesis
    using last_n_decimal [OF py_str_decimal, of 2 a]
    by (simp add: py_int_def int_max_str_digits_def)
qed

lemma normalize_swap:
  assumes m: "py_int (digits_of m) = Some a" and a: "12 < a"
    and y: "py_int (digits_of y) = Some b" and b: "1 \<le> b" "b \<le> 12"
  shows "normalize_exp_parts m y =
      (pad_single_digit (truncate_long_year (digits_of y)), last_n 2 (py_str a))"
proof -
  let ?M = "pad_single_digit (digits_of m)"
  let ?Y = "pad_single_digit (truncate_long_year (digits_of y))"
  have M: "py_int ?M = Some a" using m by (rule py_int_pad)
  have Y: "py_int ?Y = Some b" using y b by (intro py_int_pad py_int_truncate) auto
  have Mne: "?M \<noteq> []" and Yne: "?Y \<noteq> []"
    using M Y by (auto dest: py_int_SomeD)
  have "2 \<le> length ?Y" using Yne pad_length [of "truncate_long_year (digits_of y)"]
    by (cases ?Y; cases "tl ?Y") auto
  then have "zfill 2 ?Y = ?Y" by (rule zfill_id)
  then show ?thesis
    using M Y Mne Yne a b by (simp add: normalize_unfold Let_def)
qed

lemma normalize_keep:
  assumes m: "py_int (digits_of m) = Some a" and a: "a \<le> 12"
  shows "normalize_exp_parts m y =
      (pad_single_digit (digits_of m), pad_single_digit (truncate_long_year (digits_of y)))"
proof -
  have M: "py_int (pad_single_digit (digits_of m)) = Some a" using m by (rule py_int_pad)
  then have "pad_single_digit (digits_of m) \<noteq> []" by (auto dest: py_int_SomeD)
  with M a show ?thesis
    by (simp add: normalize_unfold Let_def split: option.splits)
qed

lemma normalize_refused:
  assumes "(digits_of m \<noteq> [] \<and> py_int (digits_of m) = None) \<or>
           (digits_of y \<noteq> [] \<and>
            py_int (pad_single_digit (truncate_long_year (digits_of y))) = None)"
  shows "normalize_exp_parts m y =
      (pad_single_digit (digits_of m), pad_single_digit (truncate_long_year (digits_of y)))"
  using assms py_int_pad_None [of "digits_of m"]
  by (auto simp: normalize_unfold Let_def split: option.splits)

lemma normalize_shape:
  "normalize_exp_parts m y =
      (pad_single_digit (digits_of m), pad_single_digit (truncate_long_year (digits_of y)))
   \<or> (\<exists>a. py_int (pad_single_digit (digits_of m)) = Some a \<and> 12 < a \<and>
        normalize_exp_parts m y =
          (zfill 2 (pad_single_digit (truncate_long_year (digits_of y))), last_n 2 (py_str a)))"
  by (simp add: normalize_unfold Let_def split: option.splits)

lemma normalize_month_single:
  assumes "length (digits_of m) = 1"
  shows "fst (normalize_exp_parts m y) = CHR ''0'' # digits_of m"
proof -
  have pad: "pad_single_digit (digits_of m) = CHR ''0'' # digits_of m"
    using assms by (simp add: pad_single_digit_def)
  have "\<not> (\<exists>a. py_int (pad_single_digit (digits_of m)) = Some a \<and> 12 < a)"
  proof
    assume "\<exists>a. py_int (pad_single_digit (digits_of m)) = Some a \<and> 12 < a"
    then obtain a where a: "py_int (CHR ''0'' # digits_of m) = Some a" "12 < a"
      using pad by auto
    then have "list_all py_isdecimal (digits_of m)" and "digits_val (digits_of m) = a"
      by (auto dest!: py_int_SomeD simp: digits_val_zero_cons)
    then have "a < 10" using digits_val_bound [of "digits_of m"] assms by simp
    with a(2) show False by simp
  qed
  with normalize_shape [of m y] pad show ?thesis by auto
qed

lemma normalize_year_two:
  assumes "length (pad_single_digit (truncate_long_year (digits_of y))) = 2"
  shows "pad_single_digit (truncate_long_year (digits_of y)) = snd (normalize_exp_parts m y)
       \<or> pad_single_digit (truncate_long_year (digits_of y)) = fst (normalize_exp_parts m y)"
  using normalize_shape [of m y] assms by (auto simp: zfill_id)

text \<open>Where both parts of the result have two characters.\<close>

lemma normalize_two_digits:
  assumes "length (digits_of m) = 1 \<or> length (digits_of m) = 2"
    and "length (digits_of y) = 1 \<or> length (digits_of y) = 2 \<or> 4 \<le> length (digits_of y)"
  shows "length (fst (normalize_exp_parts m y)) = 2 \<and> length (snd (normalize_exp_parts m y)) = 2"
proof -
  have M: "length (pad_single_digit (digits_of m)) = 2"
    using assms(1) by (auto simp: pad_single_digit_def)
  have Y: "length (pad_single_digit (truncate_long_year (digits_of y))) = 2"
    using assms(2) by (auto simp: pad_single_digit_def truncate_long_year_def last_n_def)
  from normalize_shape [of m y] show ?thesis
  proof
    assume "normalize_exp_parts m y =
      (pad_single_digit (digits_of m), pad_single_digit (truncate_long_year (digits_of y)))"
    with M Y show ?thesis by simp
  next
    assume "\<exists>a. py_int (pad_single_digit (digits_of m)) = Some a \<and> 12 < a \<and>
        normalize_exp_parts m y =
          (zfill 2 (pad_single_digit (truncate_long_year (digits_of y))), last_n 2 (py_str a))"
    then obtain a where a: "12 < a" and
      e: "normalize_exp_parts m y =
          (zfill 2 (pad_single_digit (truncate_long_year (digits_of y))), last_n 2 (py_str a))"
      by blast
    from a have "length (last_n 2 (py_str a)) = 2"
      using py_int_last2_str [of a] by simp
    with e Y show ?thesis by (simp add: zfill_id)
  qed
qed

text \<open>
  Claim C1, as the code has it. A string of digits reads as a number when \<open>int()\<close>
  accepts it: the digits are decimal and there are at most 4300 of them. For every
  month and year string:
  \<^item> when the digits of the month read as a number above 12 and the digits of the year
    as a number from 1 to 12, the result's month is the year (padded, or cut to its last
    two digits) and the result's year is the last two digits of the month's number: the
    values are exchanged, the month's value modulo 100;
  \<^item> when the digits of the month read as a number from 1 to 12 the order is kept;
  \<^item> when \<open>int()\<close> refuses the digits of the month, or those of the year as padded
    and cut (a digit that is not decimal, or more than 4300 digits), the order is kept;
  \<^item> a component of one digit is padded with a zero;
  \<^item> a year of four digits or more is cut to its last two;
  \<^item> the three examples of the specification hold.
\<close>

theorem normalize_exp_parts_spec:
  "(\<forall>a b. py_int (digits_of m) = Some a \<and> 12 < a \<and>
          py_int (digits_of y) = Some b \<and> 1 \<le> b \<and> b \<le> 12 \<longrightarrow>
      normalize_exp_parts m y =
        (pad_single_digit (truncate_long_year (digits_of y)), last_n 2 (py_str a)) \<and>
      py_int (fst (normalize_exp_parts m y)) = Some b \<and>
      py_int (snd (normalize_exp_parts m y)) = Some (a mod 100) \<and>
      length (snd (normalize_exp_parts m y)) = 2)
   \<and> (\<forall>a. py_int (digits_of m) = Some a \<and> 1 \<le> a \<and> a \<le> 12 \<longrightarrow>
      normalize_exp_parts m y =
        (pad_single_digit (digits_of m), pad_single_digit (truncate_long_year (digits_of y))) \<and>
      py_int (fst (normalize_exp_parts m y)) = Some a)
   \<and> ((digits_of m \<noteq> [] \<and> py_int (digits_of m) = None) \<or>
       (digits_of y \<noteq> [] \<and>
        py_int (pad_single_digit (truncate_long_year (digits_of y))) = None) \<longrightarrow>
      normalize_exp_parts m y =
        (pad_single_digit (digits_of m), pad_single_digit (truncate_long_year (digits_of y))))
   \<and> (\<forall>a. py_int (digits_of m) = Some a \<longrightarrow>
        length (digits_of m) \<le> int_max_str_digits \<and> list_all py_isdecimal (digits_of m))
   \<and> int_max_str_digits = 4300
   \<and> (length (digits_of m) = 1 \<longrightarrow>
      fst (normalize_exp_parts m y) = CHR ''0'' # digits_of m)
   \<and> (length (digits_of y) = 1 \<longrightarrow>
      CHR ''0'' # digits_of y = snd (normalize_exp_parts m y) \<or>
      CHR ''0'' # digits_of y = fst (normalize_exp_parts m y))
   \<and> (4 \<le> length (digits_of y) \<longrightarrow>
      last_n 2 (digits_of y) = snd (normalize_exp_parts m y) \<or>
      last_n 2 (digits_of y) = fst (normalize_exp_parts m y))
   \<and> normalize_exp_parts ''25'' ''03'' = (''03'', ''25'')
   \<and> normalize_exp_parts ''03'' ''25'' = (''03'', ''25'')
   \<and> normalize_exp_parts ''3'' ''2026'' = (''03'', ''26'')"
proof (intro conjI allI impI)
  fix a b
  assume h: "py_int (digits_of m) = Some a \<and> 12 < a \<and>
          py_int (digits_of y) = Some b \<and> 1 \<le> b \<and> b \<le> 12"
  then show eq: "normalize_exp_parts m y =
        (pad_single_digit (truncate_long_year (digits_of y)), last_n 2 (py_str a))"
    by (intro normalize_swap) auto
  show "py_int (fst (normalize_exp_parts m y)) = Some b"
    using h by (simp add: eq py_int_pad py_int_truncate)
  show "py_int (snd (normalize_exp_parts m y)) = Some (a mod 100)"
    using h py_int_last2_str [of a] by (simp add: eq)
  show "length (snd (normalize_exp_parts m y)) = 2"
    using h py_int_last2_str [of a] by (simp add: eq)
next
  fix a
  assume h: "py_int (digits_of m) = Some a \<and> 1 \<le> a \<and> a \<le> 12"
  then show eq: "normalize_exp_parts m y =
        (pad_single_digit (digits_of m), pad_single_digit (truncate_long_year (digits_of y)))"
    by (intro normalize_keep [of m a]) auto
  show "py_int (fst (normalize_exp_parts m y)) = Some a"
    using h by (simp add: eq py_int_pad)
next
  assume "(digits_of m \<noteq> [] \<and> py_int (digits_of m) = None) \<or>
       (digits_of y \<noteq> [] \<and>
        py_int (pad_single_digit (truncate_long_year (digits_of y))) = None)"
  then show "normalize_exp_parts m y =
        (pad_single_digit (digits_of m), pad_single_digit (truncate_long_year (digits_of y)))"
    by (rule normalize_refused)
next
  fix a
  assume "py_int (digits_of m) = Some a"
  then show "length (digits_of m) \<le> int_max_str_digits"
    and "list_all py_isdecimal (digits_of m)"
    by (auto simp: py_int_def split: if_splits)
next
  show "int_max_str_digits = 4300" by (simp add: int_max_str_digits_def)
next
  assume "length (digits_of m) = 1"
  then show "fst (normalize_exp_parts m y) = CHR ''0'' # digits_of m"
    by (rule normalize_month_single)
next
  assume h: "length (digits_of y) = 1"
  then have "pad_single_digit (truncate_long_year (digits_of y)) = CHR ''0'' # digits_of y"
    by (simp add: pad_single_digit_def truncate_long_year_def)
  with normalize_year_two [of y m] h
  show "CHR ''0'' # digits_of y = snd (normalize_exp_parts m y) \<or>
      CHR ''0'' # digits_of y = fst (normalize_exp_parts m y)"
    by simp
next
  assume h: "4 \<le> length (digits_of y)"
  then have "pad_single_digit (truncate_long_year (digits_of y)) = last_n 2 (digits_of y)"
    by (simp add: pad_single_digit_def truncate_long_year_def last_n_def)
  moreover have "length (last_n 2 (digits_of y)) = 2" using h by (simp add: last_n_def)
  ultimately show "last_n 2 (digits_of y) = snd (normalize_exp_parts m y) \<or>
      last_n 2 (digits_of y) = fst (normalize_exp_parts m y)"
    using normalize_year_two [of y m] by simp
next
  show "normalize_exp_parts ''25'' ''03'' = (''03'', ''25'')" by code_simp
  show "normalize_exp_parts ''03'' ''25'' = (''03'', ''25'')" by code_simp
  show "normalize_exp_parts ''3'' ''2026'' = (''03'', ''26'')" by code_simp
qed

text \<open>
  The theorem at the inputs of the examples, each hypothesis discharged, and at a month
  written with a superscript two, which \<open>isdigit\<close> accepts and \<open>int()\<close> refuses.
\<close>

theorem normalize_exp_parts_spec_witness:
  "py_int (digits_of ''25'') = Some 25 \<and> py_int (digits_of ''03'') = Some 3 \<and>
   normalize_exp_parts ''25'' ''03'' = (''03'', ''25'') \<and>
   py_int (digits_of ''3'') = Some 3 \<and> length (digits_of ''3'') = 1 \<and>
   4 \<le> length (digits_of ''2026'') \<and>
   normalize_exp_parts ''3'' ''2026'' = (''03'', ''26'') \<and>
   length (digits_of ''7'') = 1 \<and> snd (normalize_exp_parts ''11'' ''7'') = ''07'' \<and>
   py_int (digits_of [CHR 0xB2, CHR ''5'']) = None \<and>
   normalize_exp_parts [CHR 0xB2, CHR ''5''] ''03'' = ([CHR 0xB2, CHR ''5''], ''03'')"
proof -
  have a: "py_int (digits_of ''25'') = Some 25 \<and> (12::nat) < 25 \<and>
      py_int (digits_of ''03'') = Some 3 \<and> (1::nat) \<le> 3 \<and> (3::nat) \<le> 12"
    by code_simp
  have b: "py_int (digits_of ''3'') = Some 3 \<and> (1::nat) \<le> 3 \<and> (3::nat) \<le> 12"
    by code_simp
  have c: "pad_single_digit (truncate_long_year (digits_of ''03'')) = ''03''
       \<and> last_n 2 (py_str 25) = ''25''
       \<and> pad_single_digit (digits_of ''3'') = ''03''
       \<and> pad_single_digit (truncate_long_year (digits_of ''2026'')) = ''26''
       \<and> length (digits_of ''3'') = 1 \<and> 4 \<le> length (digits_of ''2026'')
       \<and> length (digits_of ''7'') = 1 \<and> snd (normalize_exp_parts ''11'' ''7'') = ''07''"
    by code_simp
  have d: "digits_of [CHR 0xB2, CHR ''5''] \<noteq> [] \<and>
           py_int (digits_of [CHR 0xB2, CHR ''5'']) = None"
    by code_simp
  have e: "pad_single_digit (digits_of [CHR 0xB2, CHR ''5'']) = [CHR 0xB2, CHR ''5'']"
    by code_simp
  from normalize_exp_parts_spec [of "[CHR 0xB2, CHR ''5'']" "''03''", THEN conjunct2,
      THEN conjunct2, THEN conjunct1, THEN mp, OF disjI1, OF d] c d e
  have f: "normalize_exp_parts [CHR 0xB2, CHR ''5''] ''03'' = ([CHR 0xB2, CHR ''5''], ''03'')"
    by simp
  show ?thesis
    using normalize_exp_parts_spec [of "''25''" "''03''"] a
      normalize_exp_parts_spec [of "''3''" "''2026''"] b c d f
    by simp
qed

text \<open>
  As the claim states it, the two values are swapped whenever the month is above 12 and
  the year from 1 to 12. A month of three digits is not: 123 and 5 give month 05 and
  year 23.
\<close>

theorem normalize_exp_parts_swap_counterexample:
  "py_int (digits_of ''123'') = Some 123 \<and> py_int (digits_of ''5'') = Some 5 \<and>
   normalize_exp_parts ''123'' ''5'' = (''05'', ''23'') \<and>
   py_int (snd (normalize_exp_parts ''123'' ''5'')) = Some 23"
  by code_simp

section \<open>Account lines: proofs\<close>

lemma split_from_nonempty: "split_from sep cur s \<noteq> []"
  by (induction sep cur s rule: split_from.induct) auto

lemma py_join_cons: "ps \<noteq> [] \<Longrightarrow> py_join sep (p # ps) = p @ sep @ py_join sep ps"
  by (cases ps) auto

lemma join_split_from: "py_join sep (split_from sep cur s) = cur @ s"
proof (induction sep cur s rule: split_from.induct)
  case (1 sep cur)
  show ?case by simp
next
  case (2 sep cur c cs)
  show ?case
  proof (cases "sep \<noteq> [] \<and> prefix sep (c # cs)")
    case True
    then have "c # cs = sep @ drop (length sep) (c # cs)"
      by (metis append_eq_conv_conj prefixE)
    with True 2 show ?thesis
      by (simp add: py_join_cons split_from_nonempty del: drop_Suc_Cons) 
  next
    case False
    with 2 show ?thesis by auto
  qed
qed


lemma short_take_no_sep: "sep \<noteq> [] \<Longrightarrow> \<not> sublist sep (take (length sep - 1) s)"
  using sublist_length_le [of sep "take (length sep - 1) s"] by (cases sep) auto

lemma suffix_same_length: "suffix xs (ys @ t) \<Longrightarrow> length t = length xs \<Longrightarrow> xs = t"
  by (auto simp: suffix_def append_eq_append_conv)

lemma no_sep_step:
  assumes ne: "sep \<noteq> []" and np: "\<not> prefix sep (c # cs)"
    and inv: "\<not> sublist sep (cur @ take (length sep - 1) (c # cs))"
  shows "\<not> sublist sep ((cur @ [c]) @ take (length sep - 1) cs)"
proof
  assume s: "sublist sep ((cur @ [c]) @ take (length sep - 1) cs)"
  define k where "k = length sep"
  have k: "k = Suc (k - 1)" using ne by (simp add: k_def)
  have eq: "(cur @ [c]) @ take (k - 1) cs = cur @ take k (c # cs)"
    by (subst (2) k) simp
  show False
  proof (cases "k \<le> length (c # cs)")
    case False
    then have "take k (c # cs) = take (k - 1) (c # cs)" by simp
    with s inv eq show False by (simp add: k_def)
  next
    case True
    then have "take k (c # cs) = take (k - 1) (c # cs) @ [(c # cs) ! (k - 1)]"
      by (subst (1) k) (metis Suc_le_lessD k take_Suc_conv_app_nth)
    with s eq have "sublist sep ((cur @ take (k - 1) (c # cs)) @ [(c # cs) ! (k - 1)])"
      by (simp add: k_def)
    then have "suffix sep (cur @ take k (c # cs))"
      using inv eq
      by (metis \<open>take k (c # cs) = take (k - 1) (c # cs) @ [(c # cs) ! (k - 1)]\<close> append.assoc k_def sublist_snoc)
    moreover have "length (take k (c # cs)) = length sep"
      using True by (simp add: k_def)
    ultimately have "sep = take k (c # cs)" by (rule suffix_same_length)
    then have "prefix sep (c # cs)" by (metis take_is_prefix)
    with np show False by simp
  qed
qed

lemma split_from_no_sep:
  "sep \<noteq> [] \<Longrightarrow> \<not> sublist sep (cur @ take (length sep - 1) s) \<Longrightarrow>
         \<forall>p \<in> set (split_from sep cur s). \<not> sublist sep p"
proof (induction sep cur s rule: split_from.induct)
  case (1 sep cur)
  then show ?case by simp
next
  case (2 sep cur c cs)
  show ?case
  proof (cases "sep \<noteq> [] \<and> prefix sep (c # cs)")
    case True
    have a: "\<not> sublist sep cur"
      using 2(4) by (metis sublist_append_rightI sublist_order.dual_order.trans)
    have b: "\<not> sublist sep ([] @ take (length sep - 1) (drop (length sep) (c # cs)))"
      using 2(3) short_take_no_sep [of sep "drop (length sep) (c # cs)"] by simp
    show ?thesis using True a b 2(1) by (simp del: drop_Suc_Cons)
  next
    case False
    have "\<not> sublist sep ((cur @ [c]) @ take (length sep - 1) cs)"
      using 2(3,4) False by (intro no_sep_step) auto
    then show ?thesis using False 2(2,3) by auto
  qed
qed

lemma split_parts_no_sep:
  "sep \<noteq> [] \<Longrightarrow> \<forall>p \<in> set (split_from sep [] s). \<not> sublist sep p"
  using split_from_no_sep [of sep "[]" s] short_take_no_sep [of sep s] by simp


lemma split_ws_from_parts:
  "list_all (\<lambda>c. \<not> py_isspace c) cur \<Longrightarrow>
   list_all (\<lambda>p. p \<noteq> [] \<and> list_all (\<lambda>c. \<not> py_isspace c) p) (split_ws_from cur s)"
  by (induction cur s rule: split_ws_from.induct) auto

lemma strip_no_space:
  assumes "list_all (\<lambda>c. \<not> py_isspace c) p"
  shows "py_strip p = p"
proof (cases p rule: rev_cases)
  case Nil
  then show ?thesis by (simp add: py_strip_def)
next
  case (snoc q c)
  then have "\<not> py_isspace c" and "p \<noteq> []" and "\<not> py_isspace (hd p)"
    using assms by (cases q; auto)+
  then have "dropWhile py_isspace p = p"
    by (simp add: dropWhile_eq_self_iff)
  then show ?thesis
    using snoc \<open>\<not> py_isspace c\<close> by (simp add: py_strip_def)
qed

lemma strip_ends:
  "py_strip s = [] \<or> (\<not> py_isspace (hd (py_strip s)) \<and> \<not> py_isspace (last (py_strip s)))"
proof (cases "py_strip s = []")
  case True
  then show ?thesis by simp
next
  case False
  define t where "t = dropWhile py_isspace s"
  define u where "u = dropWhile py_isspace (rev t)"
  have su: "py_strip s = rev u" by (simp add: py_strip_def t_def u_def)
  with False have une: "u \<noteq> []" by simp
  then have hu: "\<not> py_isspace (hd u)" unfolding u_def by (rule hd_dropWhile)
  from une have tne: "t \<noteq> []" by (auto simp: u_def)
  then have ht: "\<not> py_isspace (hd t)" unfolding t_def by (rule hd_dropWhile)
  have "suffix u (rev t)" unfolding u_def by (rule suffix_dropWhile)
  then have "last u = last (rev t)" using une by (auto simp: suffix_def)
  then have lu: "last u = hd t" using tne by (simp add: last_rev)
  show ?thesis using su une hu ht lu by (simp add: hd_rev last_rev)
qed

text \<open>The scan of \<open>split\<close> gives the split on the separator.\<close>

lemma take_prefix_butlast:
  assumes "sep \<noteq> []" and "prefix sep s"
  shows "take (length sep - 1) s = butlast sep"
proof -
  from assms(2) obtain d where "s = sep @ d" by (auto simp: prefix_def)
  then show ?thesis by (simp add: butlast_conv_take)
qed

lemma split_from_is_split_on:
  "sep \<noteq> [] \<Longrightarrow> \<not> sublist sep (cur @ take (length sep - 1) s) \<Longrightarrow>
   is_split_on sep (cur @ s) (split_from sep cur s)"
proof (induction sep cur s rule: split_from.induct)
  case (1 sep cur)
  then show ?case by (simp add: is_split_on.last_part)
next
  case (2 sep cur c cs)
  show ?case
  proof (cases "sep \<noteq> [] \<and> prefix sep (c # cs)")
    case True
    then have eq: "c # cs = sep @ drop (length sep) (c # cs)"
      by (metis append_eq_conv_conj prefixE)
    have a: "\<not> sublist sep (cur @ butlast sep)"
      using 2(4) True take_prefix_butlast [of sep "c # cs"] by simp
    have "\<not> sublist sep ([] @ take (length sep - 1) (drop (length sep) (c # cs)))"
      using 2(3) short_take_no_sep [of sep "drop (length sep) (c # cs)"] by simp
    with 2(1) True have "is_split_on sep ([] @ drop (length sep) (c # cs))
        (split_from sep [] (drop (length sep) (c # cs)))"
      by blast
    with a have "is_split_on sep (cur @ sep @ drop (length sep) (c # cs))
        (cur # split_from sep [] (drop (length sep) (c # cs)))"
      by (simp add: is_split_on.next_part)
    with eq True show ?thesis by (simp del: drop_Suc_Cons)
  next
    case False
    have "\<not> sublist sep ((cur @ [c]) @ take (length sep - 1) cs)"
      using 2(3,4) False by (intro no_sep_step) auto
    with 2(2,3) False have "is_split_on sep ((cur @ [c]) @ cs) (split_from sep (cur @ [c]) cs)"
      by blast
    with False show ?thesis by auto
  qed
qed

lemma split_from_is_split: "sep \<noteq> [] \<Longrightarrow> is_split_on sep line (split_from sep [] line)"
  using split_from_is_split_on [of sep "[]" line] short_take_no_sep [of sep line] by simp

text \<open>A line has one split on a separator.\<close>

lemma first_sep_shorter:
  assumes "p @ sep @ r = q @ sep @ r'" and "length p < length q"
  shows "sublist sep (q @ butlast sep)"
proof -
  define u where "u = drop (length p) q"
  have "take (length p) (p @ sep @ r) = take (length p) (q @ sep @ r')"
    using assms(1) by simp
  then have "p = take (length p) q" using assms(2) by simp
  then have q: "q = p @ u" unfolding u_def by (metis append_take_drop_id)
  have u: "u \<noteq> []" using assms(2) by (simp add: u_def)
  have e: "sep @ r = u @ sep @ r'" using assms(1) unfolding q by simp
  show ?thesis
  proof (cases "sep = []")
    case True
    then show ?thesis by simp
  next
    case False
    have "prefix sep (u @ sep @ r')" using e [symmetric] by (rule prefixI)
    moreover have "prefix (butlast sep) sep" by (rule prefixeq_butlast)
    then have "prefix (u @ butlast sep) (u @ sep @ r')" by simp
    moreover have "length sep \<le> length (u @ butlast sep)"
      using u False by (cases u) auto
    ultimately have "prefix sep (u @ butlast sep)"
      by (rule prefix_length_prefix)
    then have "sublist sep (u @ butlast sep)" by (rule prefix_imp_sublist)
    then show ?thesis unfolding q by (simp add: sublist_append)
  qed
qed

lemma first_sep_unique:
  assumes "\<not> sublist sep (p @ butlast sep)" and "\<not> sublist sep (q @ butlast sep)"
    and "p @ sep @ r = q @ sep @ r'"
  shows "p = q \<and> r = r'"
proof -
  have "\<not> length p < length q"
    using first_sep_shorter [OF assms(3)] assms(2) by blast
  moreover have "\<not> length q < length p"
    using first_sep_shorter [OF assms(3) [symmetric]] assms(1) by blast
  ultimately have "length p = length q" by simp
  with assms(3) show ?thesis by simp
qed

lemma is_split_on_unique:
  "is_split_on sep line ps \<Longrightarrow> is_split_on sep line qs \<Longrightarrow> ps = qs"
proof (induction arbitrary: qs rule: is_split_on.induct)
  case (last_part p)
  from last_part.prems show ?case
  proof cases
    case last_part
    then show ?thesis by simp
  next
    case (next_part q rest qs')
    with last_part.hyps show ?thesis by (simp add: sublist_append)
  qed
next
  case (next_part p rest ps)
  from next_part.prems show ?case
  proof cases
    case last_part
    with next_part.hyps(1) show ?thesis
      by (simp add: sublist_append)
  next
    case (next_part q rest' qs')
    with first_sep_unique [OF next_part.hyps(1), of q rest rest']
    have "p = q" and "rest = rest'" by auto
    with next_part next_part.IH show ?thesis by simp
  qed
qed

text \<open>The scan of \<open>split()\<close> gives the split on whitespace, and a line has one.\<close>

lemma takeWhile_run:
  assumes "list_all P g" and "rest = [] \<or> \<not> P (hd rest)"
  shows "takeWhile P (g @ rest) = g" and "dropWhile P (g @ rest) = rest"
  using assms by (cases rest; simp add: list_all_iff)+

lemma first_word_unique:
  assumes "list_all py_isspace g" and "p \<noteq> []" and "list_all (\<lambda>c. \<not> py_isspace c) p"
    and "rest = [] \<or> py_isspace (hd rest)"
    and "list_all py_isspace g'" and "p' \<noteq> []" and "list_all (\<lambda>c. \<not> py_isspace c) p'"
    and "rest' = [] \<or> py_isspace (hd rest')"
    and "g @ p @ rest = g' @ p' @ rest'"
  shows "p = p' \<and> rest = rest'"
proof -
  have h: "\<not> py_isspace (hd (p @ rest))" "\<not> py_isspace (hd (p' @ rest'))"
    using assms(2,3,6,7) by (cases p; cases p'; simp)+
  have "dropWhile py_isspace (g @ p @ rest) = p @ rest"
    using assms(1) h(1) by (intro takeWhile_run) auto
  moreover have "dropWhile py_isspace (g' @ p' @ rest') = p' @ rest'"
    using assms(5) h(2) by (intro takeWhile_run) auto
  ultimately have e: "p @ rest = p' @ rest'" using assms(9) by simp
  have "takeWhile (\<lambda>c. \<not> py_isspace c) (p @ rest) = p"
    using assms(3,4) by (intro takeWhile_run) auto
  moreover have "takeWhile (\<lambda>c. \<not> py_isspace c) (p' @ rest') = p'"
    using assms(7,8) by (intro takeWhile_run) auto
  ultimately have "p = p'" using e by simp
  with e show ?thesis by simp
qed

lemma whitespace_split_prepend:
  assumes "is_whitespace_split s ps" and "py_isspace c"
  shows "is_whitespace_split (c # s) ps"
  using assms(1)
proof cases
  case blank
  with assms(2) show ?thesis by (simp add: is_whitespace_split.blank)
next
  case (word g p rest ps')
  with assms(2) is_whitespace_split.word [of "c # g" p rest ps'] show ?thesis by simp
qed

lemma split_ws_from_is_split:
  "list_all (\<lambda>c. \<not> py_isspace c) cur \<Longrightarrow>
   is_whitespace_split (cur @ s) (split_ws_from cur s)"
proof (induction cur s rule: split_ws_from.induct)
  case (1 cur)
  show ?case
  proof (cases "cur = []")
    case True
    then show ?thesis by (simp add: is_whitespace_split.blank)
  next
    case False
    with 1 is_whitespace_split.word [of "[]" cur "[]" "[]"] show ?thesis
      by (simp add: is_whitespace_split.blank)
  qed
next
  case (2 cur c cs)
  show ?case
  proof (cases "py_isspace c")
    case False
    with 2 show ?thesis by simp
  next
    case True
    have rest: "is_whitespace_split (c # cs) (split_ws_from [] cs)"
      using 2(1,2) True by (cases "cur = []") (simp_all add: whitespace_split_prepend)
    show ?thesis
    proof (cases "cur = []")
      case True
      with rest \<open>py_isspace c\<close> show ?thesis by simp
    next
      case False
      with rest True 2(4) is_whitespace_split.word [of "[]" cur "c # cs" "split_ws_from [] cs"]
      show ?thesis by simp
    qed
  qed
qed

lemma py_split_ws_is_split: "is_whitespace_split line (py_split_ws line)"
  using split_ws_from_is_split [of "[]" line] by (simp add: py_split_ws_def)

lemma whitespace_split_unique:
  "is_whitespace_split line ps \<Longrightarrow> is_whitespace_split line qs \<Longrightarrow> ps = qs"
proof (induction arbitrary: qs rule: is_whitespace_split.induct)
  case (blank g)
  from blank.prems show ?case
  proof cases
    case blank
    then show ?thesis by simp
  next
    case (word g' p rest qs')
    with blank.hyps have "list_all py_isspace p" by simp
    with word(4,5) show ?thesis by (cases p) auto
  qed
next
  case (word g p rest ps)
  from word.prems show ?case
  proof cases
    case blank
    then have "list_all py_isspace p" by simp
    with word.hyps(2,3) show ?thesis by (cases p) auto
  next
    case (word g' p' rest' qs')
    from first_word_unique [OF word.hyps(1,2,3,4) word(3,4,5,6) word(1)]
    have "p = p'" and "rest = rest'" by auto
    with word word.IH show ?thesis by simp
  qed
qed

text \<open>\<open>strip\<close> trims, and a part has one trimmed part.\<close>

lemma strip_blank: "py_strip p = [] \<longleftrightarrow> list_all py_isspace p"
proof
  assume "list_all py_isspace p"
  then show "py_strip p = []"
    by (auto simp: py_strip_def list_all_iff dest: set_dropWhileD)
next
  assume "py_strip p = []"
  then have a: "\<forall>x \<in> set (dropWhile py_isspace p). py_isspace x"
    by (simp add: py_strip_def)
  have "dropWhile py_isspace p = []"
  proof (rule ccontr)
    assume ne: "dropWhile py_isspace p \<noteq> []"
    then have "\<not> py_isspace (hd (dropWhile py_isspace p))" by (rule hd_dropWhile)
    moreover from ne have "hd (dropWhile py_isspace p) \<in> set (dropWhile py_isspace p)"
      by (rule hd_in_set)
    ultimately show False using a by blast
  qed
  then show "list_all py_isspace p" by (simp add: list_all_iff)
qed

lemma strip_decompose:
  "p = takeWhile py_isspace p @ py_strip p @
       rev (takeWhile py_isspace (rev (dropWhile py_isspace p)))"
proof -
  define d where "d = dropWhile py_isspace p"
  have "rev (dropWhile py_isspace (rev d)) @ rev (takeWhile py_isspace (rev d)) =
        rev (takeWhile py_isspace (rev d) @ dropWhile py_isspace (rev d))"
    by (simp only: rev_append)
  also have "\<dots> = d" by simp
  finally have "py_strip p @ rev (takeWhile py_isspace (rev d)) = d"
    by (simp add: py_strip_def d_def)
  moreover have "p = takeWhile py_isspace p @ d" by (simp add: d_def)
  ultimately show ?thesis by (simp add: d_def)
qed

lemma takeWhile_all: "list_all P (takeWhile P xs)"
  by (induction xs) auto

lemma strip_is_trim:
  assumes "\<not> list_all py_isspace p"
  shows "is_trim_of p (py_strip p)"
proof -
  from assms have ne: "py_strip p \<noteq> []" by (simp add: strip_blank)
  with strip_ends [of p]
  have e: "\<not> py_isspace (hd (py_strip p))" "\<not> py_isspace (last (py_strip p))" by auto
  have "list_all py_isspace (rev (takeWhile py_isspace (rev (dropWhile py_isspace p))))"
    using takeWhile_all [of py_isspace "rev (dropWhile py_isspace p)"]
    by (simp add: list_all_iff)
  with strip_decompose [of p] takeWhile_all [of py_isspace p] ne e show ?thesis
    unfolding is_trim_of_def by blast
qed

lemma is_trim_of_unique:
  assumes "is_trim_of p r" and "is_trim_of p r'"
  shows "r = r'"
proof -
  from assms(1) obtain l t where
    a: "p = l @ r @ t" "list_all py_isspace l" "list_all py_isspace t"
       "r \<noteq> []" "\<not> py_isspace (hd r)" "\<not> py_isspace (last r)"
    by (auto simp: is_trim_of_def)
  from assms(2) obtain l' t' where
    b: "p = l' @ r' @ t'" "list_all py_isspace l'" "list_all py_isspace t'"
       "r' \<noteq> []" "\<not> py_isspace (hd r')" "\<not> py_isspace (last r')"
    by (auto simp: is_trim_of_def)
  have "dropWhile py_isspace (l @ r @ t) = r @ t"
    using a by (intro takeWhile_run) auto
  moreover have "dropWhile py_isspace (l' @ r' @ t') = r' @ t'"
    using b by (intro takeWhile_run) auto
  ultimately have e: "r @ t = r' @ t'" using a(1) b(1) by simp
  have "dropWhile py_isspace (rev t @ rev r) = rev r"
    using a by (intro takeWhile_run) (auto simp: hd_rev list_all_iff)
  moreover have "dropWhile py_isspace (rev t' @ rev r') = rev r'"
    using b by (intro takeWhile_run) (auto simp: hd_rev list_all_iff)
  moreover from e have "rev (r @ t) = rev (r' @ t')" by simp
  then have "rev t @ rev r = rev t' @ rev r'" by simp
  ultimately have "rev r = rev r'" by simp
  then show ?thesis by simp
qed

lemma strip_parts_trimmed:
  "are_trimmed_parts parts (map py_strip (filter (\<lambda>p. py_strip p \<noteq> []) parts))"
  unfolding are_trimmed_parts_def
  by (induction parts) (auto simp: strip_blank strip_is_trim)

lemma list_all2_unique:
  "(\<And>x y z. R x y \<Longrightarrow> R x z \<Longrightarrow> y = z) \<Longrightarrow> list_all2 R xs ys \<Longrightarrow> list_all2 R xs zs \<Longrightarrow>
   ys = zs"
  by (induction xs arbitrary: ys zs) (auto simp: list_all2_Cons1)

lemma trimmed_parts_unique:
  "are_trimmed_parts parts rs \<Longrightarrow> are_trimmed_parts parts rs' \<Longrightarrow> rs = rs'"
  unfolding are_trimmed_parts_def by (rule list_all2_unique [OF is_trim_of_unique])

text \<open>
  So each of the three relations holds of one list only, the one the scans compute.
\<close>

lemma is_split_on_iff:
  "sep \<noteq> [] \<Longrightarrow> is_split_on sep line parts \<longleftrightarrow> parts = split_from sep [] line"
  using split_from_is_split [of sep line] is_split_on_unique [of sep line] by blast

lemma is_whitespace_split_iff:
  "is_whitespace_split line parts \<longleftrightarrow> parts = py_split_ws line"
  using py_split_ws_is_split [of line] whitespace_split_unique [of line] by blast

lemma are_trimmed_parts_iff:
  "are_trimmed_parts parts result \<longleftrightarrow>
   result = map py_strip (filter (\<lambda>p. py_strip p \<noteq> []) parts)"
  using strip_parts_trimmed [of parts] trimmed_parts_unique [of parts] by blast

lemma split_parts_as_they_are:
  assumes "list_all (\<lambda>p. p \<noteq> [] \<and> list_all (\<lambda>c. \<not> py_isspace c) p) parts"
  shows "map py_strip (filter (\<lambda>p. py_strip p \<noteq> []) parts) = parts"
  using assms by (induction parts) (auto simp: strip_no_space)

lemma strip_result_clean:
  assumes "r \<in> set (map py_strip (filter (\<lambda>p. py_strip p \<noteq> []) parts))"
  shows "r \<noteq> [] \<and> \<not> py_isspace (hd r) \<and> \<not> py_isspace (last r)"
  using assms strip_ends by auto

lemma try_separators_hit:
  "i < length seps \<Longrightarrow> py_in (seps ! i) line \<Longrightarrow> \<forall>j<i. \<not> py_in (seps ! j) line \<Longrightarrow>
   seps ! i \<noteq> [] \<Longrightarrow>
   try_separators seps line = Inr (Some (split_from (seps ! i) [] line))"
proof (induction seps arbitrary: i)
  case Nil
  then show ?case by simp
next
  case (Cons sep seps)
  show ?case
  proof (cases i)
    case 0
    with Cons.prems show ?thesis by (simp add: py_split_def)
  next
    case (Suc k)
    with Cons.prems have "\<not> py_in sep line" by auto
    moreover have "try_separators seps line = Inr (Some (split_from (seps ! k) [] line))"
      using Cons.prems Suc by (intro Cons.IH) auto
    ultimately show ?thesis using Suc by simp
  qed
qed

lemma try_separators_miss:
  "\<forall>i<length seps. \<not> py_in (seps ! i) line \<Longrightarrow> try_separators seps line = Inr None"
proof (induction seps)
  case Nil
  then show ?case by simp
next
  case (Cons sep seps)
  then have "\<not> py_in sep line" and "\<forall>i<length seps. \<not> py_in (seps ! i) line"
    by auto
  with Cons.IH show ?case by simp
qed

lemma separators_nonempty: "i < length separators \<Longrightarrow> separators ! i \<noteq> []"
  by (auto simp: separators_def less_Suc_eq numeral_eq_Suc)

lemma separators_all_nonempty: "\<forall>s \<in> set separators. s \<noteq> []"
  by (simp add: separators_def)

lemma try_separators_total:
  "\<forall>s \<in> set seps. s \<noteq> [] \<Longrightarrow>
   try_separators seps line = Inr None \<or>
   (\<exists>s. try_separators seps line = Inr (Some (split_from s [] line)))"
  by (induction seps) (auto simp: py_split_def)

lemma split_account_line_shape:
  "\<exists>parts. split_account_line line separator
            = Inr (map py_strip (filter (\<lambda>p. py_strip p \<noteq> []) parts))"
proof (cases "separator \<noteq> [] \<and> py_in separator line")
  case True
  then have "split_account_line line separator =
      Inr (map py_strip (filter (\<lambda>p. py_strip p \<noteq> []) (split_from separator [] line)))"
    by (simp add: split_account_line_def py_split_def)
  then show ?thesis by (rule exI)
next
  case False
  from try_separators_total [of separators line]
  consider "try_separators separators line = Inr None"
    | s where "try_separators separators line = Inr (Some (split_from s [] line))"
    using separators_all_nonempty by blast
  then show ?thesis
  proof cases
    case 1
    with False have "split_account_line line separator =
        Inr (map py_strip (filter (\<lambda>p. py_strip p \<noteq> []) (py_split_ws line)))"
      by (auto simp: split_account_line_def)
    then show ?thesis by (rule exI)
  next
    case 2
    with False have "split_account_line line separator =
        Inr (map py_strip (filter (\<lambda>p. py_strip p \<noteq> []) (split_from s [] line)))"
      by (auto simp: split_account_line_def)
    then show ?thesis by (rule exI)
  qed
qed

lemma split_on_result:
  assumes "sep \<noteq> []"
    and "split_account_line line separator =
         Inr (map py_strip (filter (\<lambda>p. py_strip p \<noteq> []) (split_from sep [] line)))"
  shows "\<exists>parts result. is_split_on sep line parts \<and> are_trimmed_parts parts result \<and>
           split_account_line line separator = Inr result \<and>
           (\<forall>parts' result'. is_split_on sep line parts' \<and> are_trimmed_parts parts' result' \<longrightarrow>
              result' = result)"
proof (intro exI conjI allI impI)
  show "is_split_on sep line (split_from sep [] line)"
    using assms(1) by (rule split_from_is_split)
  show "are_trimmed_parts (split_from sep [] line)
          (map py_strip (filter (\<lambda>p. py_strip p \<noteq> []) (split_from sep [] line)))"
    by (rule strip_parts_trimmed)
  show "split_account_line line separator =
         Inr (map py_strip (filter (\<lambda>p. py_strip p \<noteq> []) (split_from sep [] line)))"
    by (rule assms(2))
next
  fix parts' result'
  assume h: "is_split_on sep line parts' \<and> are_trimmed_parts parts' result'"
  then have "parts' = split_from sep [] line"
    using split_from_is_split [OF assms(1), of line] by (auto intro: is_split_on_unique)
  with h show "result' = map py_strip (filter (\<lambda>p. py_strip p \<noteq> []) (split_from sep [] line))"
    using strip_parts_trimmed [of "split_from sep [] line"]
    by (auto intro: trimmed_parts_unique)
qed

text \<open>
  Claim C8. \<open>split_account_line\<close> never raises, and:
  \<^item> where the caller's separator is not empty and occurs in the line, the result is
    the trimmed parts of the split of the line on it;
  \<^item> otherwise, of the split on the first separator of the list \<open>----\<close>, \<open>---\<close>,
    \<open>|\<close>, \<open>,\<close>, \<open>;\<close>, tab that occurs in the line;
  \<^item> otherwise the result is the split of the line on whitespace;
  \<^item> in each case the line has no other split, and the parts no other trimmed parts;
  \<^item> every part returned is not empty, and neither starts nor ends with whitespace;
  \<^item> the three examples of the specification hold, and so do a line with blanks
    beside the separators and a blank field, and a line in which occurrences of the
    separator overlap.
\<close>

theorem split_account_line_spec:
  "(separator \<noteq> [] \<and> py_in separator line \<longrightarrow>
      (\<exists>parts result. is_split_on separator line parts \<and> are_trimmed_parts parts result \<and>
         split_account_line line separator = Inr result \<and>
         (\<forall>parts' result'. is_split_on separator line parts' \<and>
            are_trimmed_parts parts' result' \<longrightarrow> result' = result)))
   \<and> (\<forall>i. \<not> (separator \<noteq> [] \<and> py_in separator line) \<and> i < length separators \<and>
          py_in (separators ! i) line \<and> (\<forall>j<i. \<not> py_in (separators ! j) line) \<longrightarrow>
      (\<exists>parts result. is_split_on (separators ! i) line parts \<and>
         are_trimmed_parts parts result \<and>
         split_account_line line separator = Inr result \<and>
         (\<forall>parts' result'. is_split_on (separators ! i) line parts' \<and>
            are_trimmed_parts parts' result' \<longrightarrow> result' = result)))
   \<and> (\<not> (separator \<noteq> [] \<and> py_in separator line) \<and>
        (\<forall>i<length separators. \<not> py_in (separators ! i) line) \<longrightarrow>
      (\<exists>parts. is_whitespace_split line parts \<and>
         split_account_line line separator = Inr parts \<and>
         (\<forall>parts'. is_whitespace_split line parts' \<longrightarrow> parts' = parts)))
   \<and> (\<exists>result. split_account_line line separator = Inr result \<and>
        (\<forall>r \<in> set result. r \<noteq> [] \<and> \<not> py_isspace (hd r) \<and> \<not> py_isspace (last r)))
   \<and> separators = [''----'', ''---'', ''|'', '','', '';'', [CHR 0x09]]
   \<and> split_account_line ''a@x.com----pw----rec----secret'' ''----''
        = Inr [''a@x.com'', ''pw'', ''rec'', ''secret'']
   \<and> split_account_line ''a@x.com,pw'' ''----'' = Inr [''a@x.com'', ''pw'']
   \<and> split_account_line ''a@x.com pw  rec'' ''----'' = Inr [''a@x.com'', ''pw'', ''rec'']
   \<and> split_account_line '' a@x.com ---- pw ----  ---- sec '' ''----''
        = Inr [''a@x.com'', ''pw'', ''sec'']
   \<and> split_account_line ''a-----b'' ''----'' = Inr [''a'', ''-b'']"
proof (intro conjI allI impI)
  assume h: "separator \<noteq> [] \<and> py_in separator line"
  then have "split_account_line line separator =
      Inr (map py_strip (filter (\<lambda>p. py_strip p \<noteq> []) (split_from separator [] line)))"
    by (simp add: split_account_line_def py_split_def)
  with h show "\<exists>parts result. is_split_on separator line parts \<and>
         are_trimmed_parts parts result \<and>
         split_account_line line separator = Inr result \<and>
         (\<forall>parts' result'. is_split_on separator line parts' \<and>
            are_trimmed_parts parts' result' \<longrightarrow> result' = result)"
    by (intro split_on_result) auto
next
  fix i
  assume h: "\<not> (separator \<noteq> [] \<and> py_in separator line) \<and> i < length separators \<and>
          py_in (separators ! i) line \<and> (\<forall>j<i. \<not> py_in (separators ! j) line)"
  then have ne: "separators ! i \<noteq> []" by (simp add: separators_nonempty)
  have "try_separators separators line = Inr (Some (split_from (separators ! i) [] line))"
    using h ne by (intro try_separators_hit) auto
  with h have "split_account_line line separator =
      Inr (map py_strip (filter (\<lambda>p. py_strip p \<noteq> []) (split_from (separators ! i) [] line)))"
    by (auto simp: split_account_line_def)
  with ne show "\<exists>parts result. is_split_on (separators ! i) line parts \<and>
         are_trimmed_parts parts result \<and>
         split_account_line line separator = Inr result \<and>
         (\<forall>parts' result'. is_split_on (separators ! i) line parts' \<and>
            are_trimmed_parts parts' result' \<longrightarrow> result' = result)"
    by (rule split_on_result)
next
  assume h: "\<not> (separator \<noteq> [] \<and> py_in separator line) \<and>
        (\<forall>i<length separators. \<not> py_in (separators ! i) line)"
  then have "try_separators separators line = Inr None"
    by (intro try_separators_miss) auto
  with h have "split_account_line line separator =
      Inr (map py_strip (filter (\<lambda>p. py_strip p \<noteq> []) (py_split_ws line)))"
    by (auto simp: split_account_line_def)
  moreover have "map py_strip (filter (\<lambda>p. py_strip p \<noteq> []) (py_split_ws line))
                 = py_split_ws line"
    using split_ws_from_parts [of "[]" line]
    by (intro split_parts_as_they_are) (simp add: py_split_ws_def)
  ultimately have "split_account_line line separator = Inr (py_split_ws line)" by simp
  then show "\<exists>parts. is_whitespace_split line parts \<and>
         split_account_line line separator = Inr parts \<and>
         (\<forall>parts'. is_whitespace_split line parts' \<longrightarrow> parts' = parts)"
    using py_split_ws_is_split [of line] whitespace_split_unique [of line]
    by blast
next
  from split_account_line_shape [of line separator] obtain parts where
    "split_account_line line separator
       = Inr (map py_strip (filter (\<lambda>p. py_strip p \<noteq> []) parts))" ..
  then show "\<exists>result. split_account_line line separator = Inr result \<and>
        (\<forall>r \<in> set result. r \<noteq> [] \<and> \<not> py_isspace (hd r) \<and> \<not> py_isspace (last r))"
    using strip_result_clean [of _ parts] by blast
next
  show "separators = [''----'', ''---'', ''|'', '','', '';'', [CHR 0x09]]"
    by (simp add: separators_def)
  show "split_account_line ''a@x.com----pw----rec----secret'' ''----''
        = Inr [''a@x.com'', ''pw'', ''rec'', ''secret'']" by code_simp
  show "split_account_line ''a@x.com,pw'' ''----'' = Inr [''a@x.com'', ''pw'']" by code_simp
  show "split_account_line ''a@x.com pw  rec'' ''----'' = Inr [''a@x.com'', ''pw'', ''rec'']"
    by code_simp
  show "split_account_line '' a@x.com ---- pw ----  ---- sec '' ''----''
        = Inr [''a@x.com'', ''pw'', ''sec'']" by code_simp
  show "split_account_line ''a-----b'' ''----'' = Inr [''a'', ''-b'']" by code_simp
qed

text \<open>
  The three branches of the theorem, at a line with blanks beside the caller's
  separator and a blank field, and at the lines of the examples: the parts returned
  are the trimmed parts of a split of the line. And what the theorem excludes: a cut
  of \<open>a-----b\<close> that is not at the leftmost occurrence of the separator, a whitespace
  split that joins two words, a part left with blanks around it.
\<close>

theorem split_account_line_spec_witness:
  "(\<exists>parts. is_split_on ''----'' '' a@x.com ---- pw ----  ---- sec '' parts \<and>
      are_trimmed_parts parts [''a@x.com'', ''pw'', ''sec''])
   \<and> (\<exists>parts. is_split_on '','' ''a@x.com,pw'' parts \<and>
      are_trimmed_parts parts [''a@x.com'', ''pw''])
   \<and> is_whitespace_split ''a@x.com pw  rec'' [''a@x.com'', ''pw'', ''rec'']
   \<and> \<not> py_isspace (hd ''a@x.com'') \<and> \<not> py_isspace (last ''sec'')
   \<and> \<not> is_split_on ''----'' ''a-----b'' [''a-'', ''b'']
   \<and> \<not> is_whitespace_split ''ab cd'' [''abcd'']
   \<and> \<not> (\<exists>parts. is_split_on '','' ''a, pw '' parts \<and> are_trimmed_parts parts [''a'', '' pw ''])"
proof -
  have a: "''----'' \<noteq> [] \<and> py_in ''----'' '' a@x.com ---- pw ----  ---- sec ''"
    by code_simp
  have b0: "\<not> (''----'' \<noteq> [] \<and> py_in ''----'' ''a@x.com,pw'')"
    and b1: "3 < length separators" and b2: "py_in (separators ! 3) ''a@x.com,pw''"
    and b3: "separators ! 3 = '',''"
    by code_simp+
  have "\<not> py_in (separators ! 0) ''a@x.com,pw''"
    and "\<not> py_in (separators ! Suc 0) ''a@x.com,pw''"
    and "\<not> py_in (separators ! Suc (Suc 0)) ''a@x.com,pw''"
    by code_simp+
  then have b4: "\<forall>j<3. \<not> py_in (separators ! j) ''a@x.com,pw''"
    by (auto simp: less_Suc_eq numeral_3_eq_3)
  have c0: "\<not> (''----'' \<noteq> [] \<and> py_in ''----'' ''a@x.com pw  rec'')"
    and c1: "length separators = 6"
    by code_simp+
  have "\<not> py_in (separators ! 0) ''a@x.com pw  rec''"
    and "\<not> py_in (separators ! Suc 0) ''a@x.com pw  rec''"
    and "\<not> py_in (separators ! Suc (Suc 0)) ''a@x.com pw  rec''"
    and "\<not> py_in (separators ! Suc (Suc (Suc 0))) ''a@x.com pw  rec''"
    and "\<not> py_in (separators ! Suc (Suc (Suc (Suc 0)))) ''a@x.com pw  rec''"
    and "\<not> py_in (separators ! Suc (Suc (Suc (Suc (Suc 0))))) ''a@x.com pw  rec''"
    by code_simp+
  then have c2: "\<forall>i<length separators. \<not> py_in (separators ! i) ''a@x.com pw  rec''"
    using c1 by (auto simp: less_Suc_eq numeral_eq_Suc)
  note t1 = split_account_line_spec [of "''----''" "'' a@x.com ---- pw ----  ---- sec ''"]
  note t2 = split_account_line_spec [of "''----''" "''a@x.com,pw''"]
  note t3 = split_account_line_spec [of "''----''" "''a@x.com pw  rec''"]
  have e1: "split_account_line '' a@x.com ---- pw ----  ---- sec '' ''----''
        = Inr [''a@x.com'', ''pw'', ''sec'']"
    and e2: "split_account_line ''a@x.com,pw'' ''----'' = Inr [''a@x.com'', ''pw'']"
    and e3: "split_account_line ''a@x.com pw  rec'' ''----'' = Inr [''a@x.com'', ''pw'', ''rec'']"
    using t1 by blast+
  have w1: "\<exists>parts. is_split_on ''----'' '' a@x.com ---- pw ----  ---- sec '' parts \<and>
      are_trimmed_parts parts [''a@x.com'', ''pw'', ''sec'']"
    using t1 [THEN conjunct1, THEN mp, OF a] e1 by auto
  have "\<exists>parts. is_split_on (separators ! 3) ''a@x.com,pw'' parts \<and>
      are_trimmed_parts parts [''a@x.com'', ''pw'']"
    using t2 [THEN conjunct2, THEN conjunct1, THEN spec, of 3, THEN mp] b0 b1 b2 b4 e2
    by auto
  then have w2: "\<exists>parts. is_split_on '','' ''a@x.com,pw'' parts \<and>
      are_trimmed_parts parts [''a@x.com'', ''pw'']"
    by (simp only: b3)
  have w3: "is_whitespace_split ''a@x.com pw  rec'' [''a@x.com'', ''pw'', ''rec'']"
    using t3 [THEN conjunct2, THEN conjunct2, THEN conjunct1, THEN mp] c0 c2 e3 by auto
  have w4: "\<not> py_isspace (hd ''a@x.com'') \<and> \<not> py_isspace (last ''sec'')"
    using t1 [THEN conjunct2, THEN conjunct2, THEN conjunct2, THEN conjunct1] e1 by auto
  note t5 = split_account_line_spec [of "''----''" "''a-----b''"]
  have a5: "''----'' \<noteq> [] \<and> py_in ''----'' ''a-----b''" by code_simp
  have e5: "split_account_line ''a-----b'' ''----'' = Inr [''a'', ''-b'']"
    using t5 by blast
  have "is_trim_of ''a-'' ''a-''" and "is_trim_of ''b'' ''b''"
    unfolding is_trim_of_def
    by (rule conjI, simp, rule conjI, code_simp, rule conjI, code_simp,
        rule exI [of _ "[]"], rule exI [of _ "[]"], simp)+
  moreover have "filter (\<lambda>p. \<not> list_all py_isspace p) [''a-'', ''b''] = [''a-'', ''b'']"
    by code_simp
  ultimately have r5: "are_trimmed_parts [''a-'', ''b''] [''a-'', ''b'']"
    by (simp add: are_trimmed_parts_def)
  have w5: "\<not> is_split_on ''----'' ''a-----b'' [''a-'', ''b'']"
  proof
    assume "is_split_on ''----'' ''a-----b'' [''a-'', ''b'']"
    with r5 t5 [THEN conjunct1, THEN mp, OF a5] e5
    have "[''a-'', ''b''] = [''a'', ''-b'']" by auto
    then show False by simp
  qed
  note t6 = split_account_line_spec [of "''----''" "''ab cd''"]
  have c6: "\<not> (''----'' \<noteq> [] \<and> py_in ''----'' ''ab cd'')" by code_simp
  have "\<not> py_in (separators ! 0) ''ab cd''"
    and "\<not> py_in (separators ! Suc 0) ''ab cd''"
    and "\<not> py_in (separators ! Suc (Suc 0)) ''ab cd''"
    and "\<not> py_in (separators ! Suc (Suc (Suc 0))) ''ab cd''"
    and "\<not> py_in (separators ! Suc (Suc (Suc (Suc 0)))) ''ab cd''"
    and "\<not> py_in (separators ! Suc (Suc (Suc (Suc (Suc 0))))) ''ab cd''"
    by code_simp+
  then have d6: "\<forall>i<length separators. \<not> py_in (separators ! i) ''ab cd''"
    using c1 by (auto simp: less_Suc_eq numeral_eq_Suc)
  have e6: "split_account_line ''ab cd'' ''----'' = Inr [''ab'', ''cd'']" by code_simp
  have w6: "\<not> is_whitespace_split ''ab cd'' [''abcd'']"
  proof
    assume "is_whitespace_split ''ab cd'' [''abcd'']"
    with t6 [THEN conjunct2, THEN conjunct2, THEN conjunct1, THEN mp] c6 d6 e6
    have "[''abcd''] = [''ab'', ''cd'']" by auto
    then show False by simp
  qed
  note t7 = split_account_line_spec [of "'',''" "''a, pw ''"]
  have a7: "'','' \<noteq> [] \<and> py_in '','' ''a, pw ''" by code_simp
  have e7: "split_account_line ''a, pw '' '','' = Inr [''a'', ''pw'']" by code_simp
  have w7: "\<not> (\<exists>parts. is_split_on '','' ''a, pw '' parts \<and>
              are_trimmed_parts parts [''a'', '' pw ''])"
  proof
    assume "\<exists>parts. is_split_on '','' ''a, pw '' parts \<and>
              are_trimmed_parts parts [''a'', '' pw '']"
    with t7 [THEN conjunct1, THEN mp, OF a7] e7
    have "[''a'', '' pw ''] = [''a'', ''pw'']" by auto
    then show False by simp
  qed
  from w1 w2 w3 w4 w5 w6 w7 show ?thesis by blast
qed

section \<open>Reasoning about programs\<close>

text \<open>The combinators, applied to a state.\<close>

lemma bind_Val: "m s = (Val v, s') \<Longrightarrow> bind m k s = k v s'"
  by (simp add: bind_def)

lemma bind_Ret: "m s = (Ret r, s') \<Longrightarrow> bind m k s = (Ret r, s')"
  by (simp add: bind_def)

lemma bind_Exc: "m s = (Exc e, s') \<Longrightarrow> bind m k s = (Exc e, s')"
  by (simp add: bind_def)

lemma seq_Val: "m s = (Val v, s') \<Longrightarrow> seq m n s = n s'"
  by (simp add: seq_def bind_def)

lemma seq_Ret: "m s = (Ret r, s') \<Longrightarrow> seq m n s = (Ret r, s')"
  by (simp add: seq_def bind_def)

lemma seq_Exc: "m s = (Exc e, s') \<Longrightarrow> seq m n s = (Exc e, s')"
  by (simp add: seq_def bind_def)

lemma try_except_Val: "m s = (Val v, s') \<Longrightarrow> try_except m h s = (Val v, s')"
  by (simp add: try_except_def)

lemma try_except_Ret: "m s = (Ret r, s') \<Longrightarrow> try_except m h s = (Ret r, s')"
  by (simp add: try_except_def)

lemma try_except_Exn: "m s = (Exc (Exn x), s') \<Longrightarrow> try_except m h s = h (Exn x) s'"
  by (simp add: try_except_def)

lemma try_except_BaseExn: "m s = (Exc (BaseExn x), s') \<Longrightarrow> try_except m h s = (Exc (BaseExn x), s')"
  by (simp add: try_except_def)

lemma try_bare_Val: "m s = (Val v, s') \<Longrightarrow> try_bare m h s = (Val v, s')"
  by (simp add: try_bare_def)

lemma try_bare_Ret: "m s = (Ret r, s') \<Longrightarrow> try_bare m h s = (Ret r, s')"
  by (simp add: try_bare_def)

lemma try_bare_Exc: "m s = (Exc e, s') \<Longrightarrow> try_bare m h s = h s'"
  by (simp add: try_bare_def)

lemma call_fn_Ret: "m s = (Ret r, s') \<Longrightarrow> call_fn m s = (Val (Some r), s')"
  by (simp add: call_fn_def)

lemma call_fn_Exc: "m s = (Exc e, s') \<Longrightarrow> call_fn m s = (Exc e, s')"
  by (simp add: call_fn_def)

lemma bind_ValE:
  assumes "bind m k s = (Val v, s')"
  obtains x s1 where "m s = (Val x, s1)" and "k x s1 = (Val v, s')"
  using assms by (auto simp: bind_def split: prod.splits res.splits)

lemma seq_ValE:
  assumes "seq m n s = (Val v, s')"
  obtains x s1 where "m s = (Val x, s1)" and "n s1 = (Val v, s')"
  using assms unfolding seq_def by (rule bind_ValE)

lemma pair_fstI: "fst p = a \<Longrightarrow> p = (a, snd p)"
  by (cases p) simp

lemma perform_Inr: "answer (clock s) c = Inr v \<Longrightarrow> perform answer c s = (Val v, made c s)"
  by (simp add: perform_def)

lemma perform_Inl: "answer (clock s) c = Inl e \<Longrightarrow> perform answer c s = (Exc e, made c s)"
  by (simp add: perform_def)

lemma clock_made [simp]: "clock (made c s) = Suc (clock s)"
  by (simp add: made_def)

lemma trace_made [simp]: "trace (made c s) = trace s @ [c]"
  by (simp add: made_def)

lemmas prog_defs =
  ret_def raise_def early_return_def bind_def seq_def ignore_def try_except_def
  try_bare_def try_finally_def call_fn_def sleep_def perform_def
  dict_get_def dict_get_default_def dict_item_def truthy_def py_or_def
  wait_for_selector_def handle_fill_def page_click_def page_fill_def totp_now_def
  handle_recovery_email_challenge_def detect_manual_verification_def screenshot_def
  frames_def count_def is_visible_def click_def click_force_def evaluate_handle_def
  handle_click_force_def fill_def get_attribute_def move_to_subscribed_def
  present_def present_and_visible_def

lemmas program_defs =
  backup_of_def two_factor_recovery_def two_factor_def recovery_check_def login_flow_def
  check_and_login_def login_gate_def click_cta_def click_subscribe_def stage_cta_def
  before_precheck_def find_subscribe_early_def click_subscribe_early_def scan_markers_def
  account_line_def has_email_def mark_subscribed_def replace_card_flow_def
  verify_existing_card_def precheck_def locate_iframe_def open_card_form_def
  before_card_entry_def find_card_form_def all_inputs_def fill_card_number_def fill_exp_date_def fill_cvv_def
  fill_zip_def card_entry_def click_save_card_def through_save_def press_subscribe_def
  scan_subscribed_def verify_subscription_def subscribe_and_verify_def effective_card_def
  auto_bind_card_def

lemmas selector_defs =
  cta_selectors_def subscribe_selectors_step1_5_def subscribe_selectors_precheck_def
  subscribed_selectors_def error_selectors_def got_it_selectors_def get_offer_selectors_def
  card_selectors_def add_card_selectors_def save_selectors_def subscribe_selectors_step7_def
  payment_iframe_def totp_selector_def email_selector_def password_selector_def


lemma never_val_raise: "never_val (raise e)"
  by (simp add: never_val_def raise_def)








section \<open>Programs that execute no \<open>return\<close>\<close>

lemma never_ret_ret: "never_ret (ret v)"
  by (simp add: never_ret_def ret_def)

lemma never_ret_raise: "never_ret (raise e)"
  by (simp add: never_ret_def raise_def)

lemma never_ret_sleep: "never_ret (sleep k)"
  by (simp add: never_ret_def sleep_def ret_def)

lemma never_ret_bind: "never_ret m \<Longrightarrow> (\<And>x. never_ret (k x)) \<Longrightarrow> never_ret (bind m k)"
  by (auto simp: never_ret_def bind_def split: prod.splits res.splits)

lemma never_ret_seq: "never_ret m \<Longrightarrow> never_ret n \<Longrightarrow> never_ret (seq m n)"
  by (simp add: seq_def never_ret_bind)

lemma never_ret_if: "never_ret a \<Longrightarrow> never_ret b \<Longrightarrow> never_ret (if c then a else b)"
  by simp

lemma never_ret_try_except:
  "never_ret m \<Longrightarrow> (\<And>e. never_ret (h e)) \<Longrightarrow> never_ret (try_except m h)"
  by (auto simp: never_ret_def try_except_def split: prod.splits res.splits exn.splits)

lemma never_ret_try_bare: "never_ret m \<Longrightarrow> never_ret h \<Longrightarrow> never_ret (try_bare m h)"
  by (auto simp: never_ret_def try_bare_def split: prod.splits res.splits)

lemma never_ret_case_option:
  "never_ret a \<Longrightarrow> (\<And>x. never_ret (b x)) \<Longrightarrow> never_ret (case v of None \<Rightarrow> a | Some x \<Rightarrow> b x)"
  by (cases v) simp_all

lemma never_ret_perform: "never_ret (perform answer c)"
  by (auto simp: never_ret_def perform_def split: sum.splits)

lemma never_ret_find_first: "(\<And>x. never_ret (body x)) \<Longrightarrow> never_ret (find_first body xs)"
proof (induction xs)
  case Nil
  show ?case by (simp add: never_ret_ret)
next
  case (Cons x xs)
  show ?case
    unfolding find_first.simps
  proof (rule never_ret_bind)
    show "never_ret (body x)" by (rule Cons.prems)
  next
    fix r
    show "never_ret (case r of None \<Rightarrow> find_first body xs | Some v \<Rightarrow> ret (Some v))"
      using Cons by (cases r) (simp_all add: never_ret_ret)
  qed
qed

lemma never_ret_page_calls:
  "never_ret (count env element)"
  "never_ret (click env element)"
  "never_ret (screenshot env path)"
  "never_ret (move_to_subscribed env line)"
  unfolding count_def click_def screenshot_def move_to_subscribed_def
  by (rule never_ret_perform)+

lemmas never_ret_intros =
  never_ret_ret never_ret_raise never_ret_sleep never_ret_bind never_ret_seq never_ret_if
  never_ret_try_except never_ret_try_bare never_ret_case_option never_ret_find_first
  never_ret_page_calls

lemma never_ret_click_subscribe_early: "never_ret (click_subscribe_early env button)"
  unfolding click_subscribe_early_def block.simps click_force_def evaluate_handle_def
    handle_click_force_def
  by (intro never_ret_intros never_ret_perform)












section \<open>What a program leaves unchanged\<close>

lemma preservesD: "preserves obs m \<Longrightarrow> obs (snd (m s)) = obs s"
  by (cases "m s") (auto simp: preserves_def)

lemma preserves_ret: "preserves obs (ret v)"
  by (simp add: preserves_def ret_def)

lemma preserves_raise: "preserves obs (raise e)"
  by (simp add: preserves_def raise_def)

lemma preserves_early_return: "preserves obs (early_return r)"
  by (simp add: preserves_def early_return_def)

lemma preserves_sleep: "preserves obs (sleep k)"
  by (simp add: preserves_def sleep_def ret_def)

lemma preserves_bind:
  "preserves obs m \<Longrightarrow> (\<And>x. preserves obs (k x)) \<Longrightarrow> preserves obs (bind m k)"
  unfolding preserves_def bind_def
  by (auto split: prod.splits res.splits)

lemma preserves_seq: "preserves obs m \<Longrightarrow> preserves obs n \<Longrightarrow> preserves obs (seq m n)"
  by (simp add: seq_def preserves_bind)

lemma preserves_ignore: "preserves obs m \<Longrightarrow> preserves obs (ignore m)"
  by (simp add: ignore_def preserves_bind preserves_ret)

lemma preserves_block_Nil: "preserves obs (block [])"
  by (simp add: preserves_ret)

lemma preserves_block_Cons:
  "preserves obs m \<Longrightarrow> preserves obs (block ms) \<Longrightarrow> preserves obs (block (m # ms))"
  by (simp add: preserves_seq)

lemma preserves_try_except:
  "preserves obs m \<Longrightarrow> (\<And>e. preserves obs (h e)) \<Longrightarrow> preserves obs (try_except m h)"
  unfolding preserves_def try_except_def
  by (auto split: prod.splits res.splits exn.splits)

lemma preserves_try_bare:
  "preserves obs m \<Longrightarrow> preserves obs h \<Longrightarrow> preserves obs (try_bare m h)"
  unfolding preserves_def try_bare_def
  by (auto split: prod.splits res.splits)

lemma preserves_try_finally:
  "preserves obs m \<Longrightarrow> preserves obs f \<Longrightarrow> preserves obs (try_finally m f)"
  unfolding preserves_def try_finally_def
  by (auto split: prod.splits res.splits)

lemma preserves_call_fn: "preserves obs m \<Longrightarrow> preserves obs (call_fn m)"
  unfolding preserves_def call_fn_def
  by (auto split: prod.splits res.splits)

lemma preserves_find_first:
  "(\<And>x. preserves obs (body x)) \<Longrightarrow> preserves obs (find_first body xs)"
proof (induction xs)
  case Nil
  show ?case by (simp add: preserves_ret)
next
  case (Cons x xs)
  show ?case
    unfolding find_first.simps
  proof (rule preserves_bind)
    show "preserves obs (body x)" by (rule Cons.prems)
  next
    fix r
    show "preserves obs (case r of None \<Rightarrow> find_first body xs | Some v \<Rightarrow> ret (Some v))"
      using Cons by (cases r) (simp_all add: preserves_ret)
  qed
qed

lemma preserves_if:
  "preserves obs a \<Longrightarrow> preserves obs b \<Longrightarrow> preserves obs (if c then a else b)"
  by simp

lemma preserves_case_option:
  "preserves obs a \<Longrightarrow> (\<And>x. preserves obs (b x)) \<Longrightarrow>
   preserves obs (case v of None \<Rightarrow> a | Some x \<Rightarrow> b x)"
  by (cases v) simp_all

lemma preserves_case_prod:
  "(\<And>x y. preserves obs (f x y)) \<Longrightarrow> preserves obs (case p of (x, y) \<Rightarrow> f x y)"
  by (cases p) simp

lemma preserves_dict_item: "preserves obs (dict_item d k)"
  by (simp add: dict_item_def preserves_case_option preserves_raise preserves_ret)

lemma preserves_perform:
  "(\<And>s. obs (made c s) = obs s) \<Longrightarrow> preserves obs (perform answer c)"
  by (simp add: preserves_def perform_def)

lemmas preserves_intros =
  preserves_ret preserves_raise preserves_early_return preserves_sleep preserves_bind
  preserves_seq preserves_ignore preserves_block_Nil preserves_block_Cons
  preserves_try_except preserves_try_bare preserves_try_finally preserves_call_fn
  preserves_find_first preserves_if preserves_case_option preserves_case_prod
  preserves_dict_item

text \<open>The calls on the page, all but one, are no calls to the account store.\<close>

lemma store_calls_made: "\<not> is_move c \<Longrightarrow> store_calls (made c s) = store_calls s"
  by (simp add: store_calls_def)

lemma page_calls_keep_store:
  "preserves store_calls (wait_for_selector env selector timeout)"
  "preserves store_calls (handle_fill env h v)"
  "preserves store_calls (page_click env selector)"
  "preserves store_calls (page_fill env selector v)"
  "preserves store_calls (totp_now env secret)"
  "preserves store_calls (handle_recovery_email_challenge env backup)"
  "preserves store_calls (detect_manual_verification env)"
  "preserves store_calls (screenshot env path)"
  "preserves store_calls (frames env)"
  "preserves store_calls (count env element)"
  "preserves store_calls (is_visible env element)"
  "preserves store_calls (click env element)"
  "preserves store_calls (click_force env element)"
  "preserves store_calls (evaluate_handle env element)"
  "preserves store_calls (handle_click_force env h)"
  "preserves store_calls (fill env element text)"
  "preserves store_calls (get_attribute env element name)"
  unfolding wait_for_selector_def handle_fill_def page_click_def page_fill_def totp_now_def
    handle_recovery_email_challenge_def detect_manual_verification_def screenshot_def
    frames_def count_def is_visible_def click_def click_force_def evaluate_handle_def
    handle_click_force_def fill_def get_attribute_def
  by (rule preserves_perform, simp add: store_calls_made is_move_def)+

lemma present_keeps_store:
  "preserves store_calls (present env element)"
  "preserves store_calls (present_and_visible env element)"
  unfolding present_def present_and_visible_def
  by (intro preserves_intros page_calls_keep_store)+

lemma mark_subscribed_keeps_store:
  "\<not> has_email account_info \<Longrightarrow> preserves store_calls (mark_subscribed env account_info)"
  by (auto simp: mark_subscribed_def has_email_def preserves_ret split: option.splits)

lemma check_and_login_keeps_store: "preserves store_calls (check_and_login env account_info)"
  unfolding check_and_login_def login_flow_def two_factor_def two_factor_recovery_def
    recovery_check_def
  by (intro preserves_intros page_calls_keep_store)

lemma before_precheck_keeps_store: "preserves store_calls (before_precheck env account_info)"
  unfolding before_precheck_def login_gate_def stage_cta_def click_cta_def click_subscribe_def
    Let_def
  by (intro preserves_intros page_calls_keep_store present_keeps_store
      check_and_login_keeps_store)

lemma precheck_keeps_store:
  assumes "\<not> has_email account_info"
  shows "preserves store_calls (precheck env account_info)"
  unfolding precheck_def find_subscribe_early_def click_subscribe_early_def
    verify_existing_card_def scan_markers_def replace_card_flow_def Let_def
  by (intro preserves_intros page_calls_keep_store present_keeps_store
      mark_subscribed_keeps_store [OF assms])

lemma before_card_entry_keeps_store:
  assumes "\<not> has_email account_info"
  shows "preserves store_calls (before_card_entry env card_info account_info)"
  unfolding before_card_entry_def find_card_form_def locate_iframe_def open_card_form_def Let_def
  by (intro preserves_intros page_calls_keep_store before_precheck_keeps_store
      precheck_keeps_store [OF assms])

lemma card_entry_keeps_store: "preserves store_calls (card_entry env frame card_info)"
  unfolding card_entry_def fill_card_number_def fill_exp_date_def fill_cvv_def fill_zip_def
    Let_def
  by (intro preserves_intros page_calls_keep_store)

lemma through_save_keeps_store:
  assumes "\<not> has_email account_info"
  shows "preserves store_calls (through_save env card_info account_info)"
  unfolding through_save_def click_save_card_def Let_def
  by (intro preserves_intros page_calls_keep_store before_card_entry_keeps_store [OF assms]
      card_entry_keeps_store)

lemma subscribe_and_verify_keeps_store:
  assumes "\<not> has_email account_info"
  shows "preserves store_calls (subscribe_and_verify env account_info)"
  unfolding subscribe_and_verify_def press_subscribe_def verify_subscription_def
    scan_subscribed_def Let_def
  by (intro preserves_intros page_calls_keep_store mark_subscribed_keeps_store [OF assms])

text \<open>Without an e-mail address in \<open>account_info\<close> the account store is never called.\<close>

lemma auto_bind_card_keeps_store:
  assumes "\<not> has_email account_info"
  shows "preserves store_calls (auto_bind_card env card_info account_info)"
  unfolding auto_bind_card_def
  by (intro preserves_intros through_save_keeps_store [OF assms]
      subscribe_and_verify_keeps_store [OF assms])

section \<open>The stages in the example environments\<close>

lemmas env_defs = static_env_def all_ok_def form_frame_def subscribe_span_def start_button_def
  count_bound_def count_soft_def count_form_def env_bound_def env_soft_def env_form_def

lemma bind_fst: "fst (m s) = Val v \<Longrightarrow> bind m k s = k v (snd (m s))"
  by (cases "m s") (simp add: bind_def)

lemma seq_fst: "fst (m s) = Val v \<Longrightarrow> seq m n s = n (snd (m s))"
  by (simp add: seq_def bind_fst)

lemma static_login:
  "check_and_login (static_env d answer matches fs) account_info s
   = (Val (Some (True, AlreadyLoggedIn)), made (WaitForSelector email_selector 5000) s)"
  by (simp add: prog_defs check_and_login_def static_env_def)

lemma static_before_precheck:
  assumes "\<And>p. answer (Screenshot p) = Inr ()"
    and "\<And>selector. matches (Count (First (Locator Page selector))) = 0"
  shows "fst (before_precheck (static_env d answer matches []) account_info s) = Val ()"
  using assms
  by (simp add: prog_defs before_precheck_def login_gate_def check_and_login_def
      stage_cta_def click_cta_def click_subscribe_def selector_defs Let_def static_env_def)

lemma form_before_precheck: "fst (before_precheck (env_form n) account_info s) = Val ()"
  by (simp add: prog_defs before_precheck_def login_gate_def check_and_login_def
      stage_cta_def click_cta_def click_subscribe_def selector_defs Let_def
      env_defs all_inputs_def)

lemma static_find_subscribe_early:
  assumes "matches (Count subscribe_span) = 1"
  shows "fst (find_subscribe_early (static_env d answer matches fs) (FrameLocator payment_iframe) s)
         = Val (Some subscribe_span)"
  using assms
  by (simp add: prog_defs find_subscribe_early_def subscribe_selectors_precheck_def
      static_env_def subscribe_span_def Let_def)

lemma static_click_subscribe_early:
  assumes "\<And>p. answer (Screenshot p) = Inr ()" and "\<And>l. answer (ClickForce l) = Inr ()"
  shows "fst (click_subscribe_early (static_env d answer matches fs) button s) = Val ()"
  using assms
  by (simp add: prog_defs click_subscribe_early_def static_env_def)

lemma bound_scan_subscribed:
  "fst (scan_markers (static_env d answer count_bound fs) [FrameLocator payment_iframe, Page]
          subscribed_selectors s) = Val True"
  by (simp add: prog_defs scan_markers_def subscribed_selectors_def static_env_def
      count_bound_def Let_def)

lemma soft_scan_subscribed:
  "fst (scan_markers env_soft [FrameLocator payment_iframe, Page] subscribed_selectors s)
   = Val False"
  by (simp add: prog_defs scan_markers_def subscribed_selectors_def env_defs
      payment_iframe_def Let_def)

lemma soft_scan_error:
  "fst (scan_markers env_soft [FrameLocator payment_iframe, Page] error_selectors s)
   = Val False"
  by (simp add: prog_defs scan_markers_def error_selectors_def env_defs
      payment_iframe_def Let_def)

lemma form_precheck: "fst (precheck (env_form n) account_info s) = Val ()"
  by (simp add: prog_defs precheck_def find_subscribe_early_def
      subscribe_selectors_precheck_def env_defs payment_iframe_def all_inputs_def Let_def)

lemma locate_iframe_value: "locate_iframe s = (Val (FrameLocator payment_iframe), s)"
  by (simp add: prog_defs locate_iframe_def)

lemma form_open_card_form:
  "fst (open_card_form (env_form n) (FrameLocator payment_iframe) s) = Val (Some form_frame)"
  by (simp add: prog_defs open_card_form_def add_card_selectors_def env_defs
      payment_iframe_def all_inputs_def Let_def py_in_def sublist_Cons_right)

lemma bind_locate_iframe: "bind locate_iframe k s = k (FrameLocator payment_iframe) s"
  by (simp add: bind_def locate_iframe_value)

lemma form_before_card_entry:
  "fst (before_card_entry (env_form n) test_card account_info s) = Val form_frame"
  by (simp only: before_card_entry_def find_card_form_def seq_fst [OF form_before_precheck]
      seq_fst [OF form_precheck] bind_locate_iframe bind_fst [OF form_open_card_form])
     (simp add: prog_defs test_card_def)

lemma form_card_entry_init:
  \<open>card_entry (env_form 4) form_frame test_card init
   = (Val (),
      \<lparr>clock = 10,
       trace =
         [Count (all_inputs form_frame),
          Click (Nth (all_inputs form_frame) 0),
          Fill (Nth (all_inputs form_frame) 0) ''4111111111111111'',
          Click (Nth (all_inputs form_frame) 1),
          Fill (Nth (all_inputs form_frame) 1) ''0325'',
          Click (Nth (all_inputs form_frame) 2),
          Fill (Nth (all_inputs form_frame) 2) ''123'',
          GetAttribute (Nth (all_inputs form_frame) 3) ''type'',
          Click (Nth (all_inputs form_frame) 3),
          Fill (Nth (all_inputs form_frame) 3) ''10001'']\<rparr>)\<close>
proof -
  have n: "normalize_exp_parts ''25'' ''03'' = (''03'', ''25'')" by code_simp
  have u: "[3 ..< 4] = [3::nat]" by (simp add: upt_rec)
  show ?thesis
    by (simp add: card_entry_def fill_card_number_def fill_exp_date_def fill_cvv_def
        fill_zip_def prog_defs made_def env_defs all_inputs_def test_card_def init_def
        Let_def n u)
qed

lemma form_card_entry: "fst (card_entry (env_form 4) form_frame test_card s) = Val ()"
proof -
  have n: "normalize_exp_parts ''25'' ''03'' = (''03'', ''25'')" by code_simp
  have u: "[3 ..< 4] = [3::nat]" by (simp add: upt_rec)
  show ?thesis
    by (simp add: card_entry_def fill_card_number_def fill_exp_date_def fill_cvv_def
        fill_zip_def prog_defs env_defs all_inputs_def test_card_def Let_def n u)
qed

lemma form_click_save_card: "fst (click_save_card (env_form n) form_frame s) = Val ()"
  by (simp add: click_save_card_def save_selectors_def prog_defs env_defs all_inputs_def
      payment_iframe_def Let_def)

lemma form_through_save: "fst (through_save (env_form 4) test_card account_info s) = Val ()"
  by (simp only: through_save_def block.simps bind_fst [OF form_before_card_entry]
      seq_fst [OF form_card_entry] seq_fst [OF form_click_save_card])
     (simp add: prog_defs env_defs)

lemma form_press_subscribe: "fst (press_subscribe (env_form n) s) = Val True"
  by (simp add: press_subscribe_def subscribe_selectors_step7_def prog_defs env_defs
      all_inputs_def payment_iframe_def Let_def)

lemma form_scan_subscribed: "fst (scan_subscribed (env_form n) s) = Val False"
  by (simp add: scan_subscribed_def subscribed_selectors_def prog_defs env_defs
      all_inputs_def payment_iframe_def Let_def)

section \<open>The card that is already bound, and the marker that is not seen\<close>

lemma precheck_subscribed_run:
  assumes "before_precheck env account_info s0 = (Val (), s1)"
    and "find_subscribe_early env (FrameLocator payment_iframe) s1 = (Val (Some button), s2)"
    and "click_subscribe_early env button s2 = (Val (), s3)"
    and "scan_markers env [FrameLocator payment_iframe, Page] subscribed_selectors s3
         = (Val True, s4)"
  shows "auto_bind_card env card_info account_info s0
         = store_then_return env account_info AlreadyBoundSubscribed AlreadyBound s4"
  using assms
  by (simp add: auto_bind_card_def through_save_def before_card_entry_def find_card_form_def precheck_def
      verify_existing_card_def mark_subscribed_def store_then_return_def move_to_subscribed_def
      perform_def call_fn_def try_except_def bind_def seq_def sleep_def ret_def early_return_def
      Let_def split: option.splits sum.splits exn.splits)

lemma find_first_total:
  assumes "\<And>x s. \<exists>r s'. body x s = (Val r, s')"
  shows "\<exists>r s'. find_first body xs s = (Val r, s')"
proof (induction xs arbitrary: s)
  case Nil
  show ?case by (simp add: ret_def)
next
  case (Cons x xs)
  from assms [of x s] obtain r s1 where b: "body x s = (Val r, s1)" by blast
  show ?case
  proof (cases r)
    case None
    with b Cons [of s1] show ?thesis by (simp add: bind_def)
  next
    case (Some v)
    with b show ?thesis by (simp add: bind_def ret_def)
  qed
qed

lemma try_bare_total:
  "\<exists>r s'. try_bare (bind (count env element) (\<lambda>n. if n > 0 then ret (Some ()) else ret None))
             (ret None) s = (Val r, s')"
  by (auto simp: try_bare_def bind_def count_def perform_def ret_def split: sum.splits)

lemma scan_markers_total:
  "\<exists>found s'. scan_markers env scopes selectors s = (Val found, s')"
proof -
  have "\<exists>r s'. find_first (\<lambda>selector.
             find_first (\<lambda>scope.
               try_bare
                 (let element = First (Locator scope selector) in
                  bind (count env element) (\<lambda>n. if n > 0 then ret (Some ()) else ret None))
                 (ret None)) scopes) selectors s = (Val r, s')"
    unfolding Let_def by (intro find_first_total try_bare_total)
  then show ?thesis
    by (auto simp: scan_markers_def bind_def ret_def)
qed

lemma precheck_after_scan:
  assumes "before_precheck env account_info s0 = (Val (), s1)"
    and "find_subscribe_early env (FrameLocator payment_iframe) s1 = (Val (Some button), s2)"
    and "click_subscribe_early env button s2 = (Val (), s3)"
    and "scan_markers env [FrameLocator payment_iframe, Page] subscribed_selectors s3
         = (Val found, s4)"
  shows "seq (before_precheck env account_info) (precheck env account_info) s0
         = try_except
             (if found
              then seq (mark_subscribed env account_info)
                     (early_return (True, AlreadyBoundSubscribed))
              else bind (scan_markers env [FrameLocator payment_iframe, Page] error_selectors)
                     (\<lambda>error_found.
                        if error_found then replace_card_flow env (FrameLocator payment_iframe)
                        else early_return (True, AlreadyBound)))
             (\<lambda>e. early_return (True, AlreadyBound)) s4"
  using assms
  by (simp add: precheck_def verify_existing_card_def try_except_def bind_def seq_def
      sleep_def ret_def early_return_def Let_def split: prod.splits res.splits exn.splits)

lemma precheck_click_raises:
  assumes "before_precheck env account_info s0 = (Val (), s1)"
    and "find_subscribe_early env (FrameLocator payment_iframe) s1 = (Val (Some button), s2)"
    and "click_subscribe_early env button s2 = (Exc (Exn x), t3)"
  shows "seq (before_precheck env account_info) (precheck env account_info) s0 = (Val (), t3)"
  using assms
  by (simp add: precheck_def try_except_def bind_def seq_def sleep_def ret_def Let_def)

lemma precheck_click_raises_base:
  assumes "before_precheck env account_info s0 = (Val (), s1)"
    and "find_subscribe_early env (FrameLocator payment_iframe) s1 = (Val (Some button), s2)"
    and "click_subscribe_early env button s2 = (Exc (BaseExn x), t3)"
  shows "auto_bind_card env card_info account_info s0 = (Exc (BaseExn x), t3)"
  using assms
  by (simp add: auto_bind_card_def through_save_def before_card_entry_def precheck_def
      call_fn_def try_except_def bind_def seq_def sleep_def ret_def Let_def)

lemma before_card_entry_after_precheck:
  assumes "seq (before_precheck env account_info) (precheck env account_info) s0 = (Val (), t)"
  shows "before_card_entry env cd account_info s0 = find_card_form env cd t"
  using assms
  by (auto simp: before_card_entry_def seq_def bind_def split: prod.splits res.splits)

lemma precheck_soft_run:
  assumes "before_precheck env account_info s0 = (Val (), s1)"
    and "find_subscribe_early env (FrameLocator payment_iframe) s1 = (Val (Some button), s2)"
    and "click_subscribe_early env button s2 = (Val (), s3)"
    and "scan_markers env [FrameLocator payment_iframe, Page] subscribed_selectors s3
         = (Val False, s4)"
    and "scan_markers env [FrameLocator payment_iframe, Page] error_selectors s4
         = (Val False, s5)"
  shows "auto_bind_card env card_info account_info s0 = (Val (Some (True, AlreadyBound)), s5)"
  using assms
  by (simp add: auto_bind_card_def through_save_def before_card_entry_def find_card_form_def precheck_def
      verify_existing_card_def call_fn_def try_except_def bind_def seq_def sleep_def ret_def
      early_return_def Let_def)

lemma final_unconfirmed_run:
  assumes "through_save env (effective_card env card_info) account_info s0 = (Val (), s1)"
    and "press_subscribe env s1 = (Val True, s2)"
    and "scan_subscribed env s2 = (Val False, s3)"
  shows "auto_bind_card env card_info account_info s0
         = store_then_return env account_info SubscribedAssumed SubscribedAssumed s3"
  using assms
  by (simp add: auto_bind_card_def subscribe_and_verify_def verify_subscription_def
      mark_subscribed_def store_then_return_def move_to_subscribed_def
      perform_def call_fn_def try_except_def bind_def seq_def ret_def early_return_def
      split: option.splits sum.splits exn.splits)

lemma form_auto_bind_card:
  assumes "effective_card (env_form 4) card_info = test_card"
  shows "fst (auto_bind_card (env_form 4) card_info account_info s)
         = Val (Some (True, SubscribedAssumed))"
proof -
  have "auto_bind_card (env_form 4) card_info account_info s
     = store_then_return (env_form 4) account_info SubscribedAssumed SubscribedAssumed
         (snd (scan_subscribed (env_form 4)
           (snd (press_subscribe (env_form 4)
             (snd (through_save (env_form 4) (effective_card (env_form 4) card_info)
                account_info s))))))"
    by (rule final_unconfirmed_run; rule pair_fstI)
       (simp_all only: assms form_through_save form_press_subscribe form_scan_subscribed)
  then show ?thesis
    by (simp add: store_then_return_def env_form_def static_env_def all_ok_def
        split: option.splits)
qed

section \<open>\<open>auto_bind_card\<close> always answers\<close>







text \<open>
  Claim C4, as the code has it. Take a run in which the pre-check finds a subscribe
  button. When the click on it and the screenshot of line 337 go through, the scan
  for the marker follows and runs to its end, and the pre-check goes on from the
  state the scan leaves: with the account store and the \<open>return\<close> when the marker
  was found, with the scan for the error markers when it was not (lines 367 to 487).
  When the scan finds \<open>Subscribed\<close> the run ends right there: with no e-mail address in \<open>account_info\<close> it returns success and the account
  store is not called; with one, \<open>move_to_subscribed\<close> is called once, and the run
  returns success whether the store answers or raises an \<open>Exception\<close>. In every such
  case the last call of the run is the scan or the call to the store: the card-entry
  stage is not entered. When an \<open>Exception\<close> leaves the click and the screenshot (the
  handlers of lines 325 to 332 catch what the click raises, nothing catches what the
  screenshot raises before line 491), no scan follows: the pre-check ends without a
  \<open>return\<close>, and the run goes on with the search for the card form. What is no
  \<open>Exception\<close> leaves the run.
\<close>

theorem already_bound_subscribed:
  assumes "before_precheck env account_info s0 = (Val (), s1)"
    and "find_subscribe_early env (FrameLocator payment_iframe) s1 = (Val (Some button), s2)"
  shows "(\<forall>s3. click_subscribe_early env button s2 = (Val (), s3) \<longrightarrow>
            (\<exists>found s4.
               scan_markers env [FrameLocator payment_iframe, Page] subscribed_selectors s3
                 = (Val found, s4) \<and>
               seq (before_precheck env account_info) (precheck env account_info) s0
                 = try_except
                     (if found
                      then seq (mark_subscribed env account_info)
                             (early_return (True, AlreadyBoundSubscribed))
                      else bind (scan_markers env [FrameLocator payment_iframe, Page]
                                   error_selectors)
                             (\<lambda>error_found.
                                if error_found
                                then replace_card_flow env (FrameLocator payment_iframe)
                                else early_return (True, AlreadyBound)))
                     (\<lambda>e. early_return (True, AlreadyBound)) s4))
       \<and> (\<forall>s3 s4.
            click_subscribe_early env button s2 = (Val (), s3) \<and>
            scan_markers env [FrameLocator payment_iframe, Page] subscribed_selectors s3
              = (Val True, s4) \<longrightarrow>
            (\<not> has_email account_info \<longrightarrow>
               auto_bind_card env card_info account_info s0
                 = (Val (Some (True, AlreadyBoundSubscribed)), s4))
          \<and> (\<forall>acct. account_info = Some acct \<and> has_email account_info \<longrightarrow>
               (unit_result env (clock s4) (MoveToSubscribed (account_line acct)) = Inr () \<longrightarrow>
                  auto_bind_card env card_info account_info s0
                    = (Val (Some (True, AlreadyBoundSubscribed)),
                       made (MoveToSubscribed (account_line acct)) s4)) \<and>
               (\<forall>x. unit_result env (clock s4) (MoveToSubscribed (account_line acct))
                       = Inl (Exn x) \<longrightarrow>
                  auto_bind_card env card_info account_info s0
                    = (Val (Some (True, AlreadyBound)),
                       made (MoveToSubscribed (account_line acct)) s4)) \<and>
               (\<forall>x. unit_result env (clock s4) (MoveToSubscribed (account_line acct))
                       = Inl (BaseExn x) \<longrightarrow>
                  auto_bind_card env card_info account_info s0
                    = (Exc (BaseExn x), made (MoveToSubscribed (account_line acct)) s4))))
       \<and> (\<forall>x t3. click_subscribe_early env button s2 = (Exc (Exn x), t3) \<longrightarrow>
            seq (before_precheck env account_info) (precheck env account_info) s0 = (Val (), t3) \<and>
            before_card_entry env (effective_card env card_info) account_info s0
              = find_card_form env (effective_card env card_info) t3)
       \<and> (\<forall>x t3. click_subscribe_early env button s2 = (Exc (BaseExn x), t3) \<longrightarrow>
            auto_bind_card env card_info account_info s0 = (Exc (BaseExn x), t3))
       \<and> (\<forall>r t3. click_subscribe_early env button s2 \<noteq> (Ret r, t3))"
proof (intro conjI allI impI)
  fix s3
  assume c: "click_subscribe_early env button s2 = (Val (), s3)"
  from scan_markers_total [of env "[FrameLocator payment_iframe, Page]" subscribed_selectors s3]
  obtain found s4 where
    f: "scan_markers env [FrameLocator payment_iframe, Page] subscribed_selectors s3
        = (Val found, s4)"
    by blast
  from f precheck_after_scan [OF assms c f]
  show "\<exists>found s4.
               scan_markers env [FrameLocator payment_iframe, Page] subscribed_selectors s3
                 = (Val found, s4) \<and>
               seq (before_precheck env account_info) (precheck env account_info) s0
                 = try_except
                     (if found
                      then seq (mark_subscribed env account_info)
                             (early_return (True, AlreadyBoundSubscribed))
                      else bind (scan_markers env [FrameLocator payment_iframe, Page]
                                   error_selectors)
                             (\<lambda>error_found.
                                if error_found
                                then replace_card_flow env (FrameLocator payment_iframe)
                                else early_return (True, AlreadyBound)))
                     (\<lambda>e. early_return (True, AlreadyBound)) s4"
    by blast
next
  fix s3 s4
  assume a: "click_subscribe_early env button s2 = (Val (), s3) \<and>
            scan_markers env [FrameLocator payment_iframe, Page] subscribed_selectors s3
              = (Val True, s4)"
  assume "\<not> has_email account_info"
  then show "auto_bind_card env card_info account_info s0
                 = (Val (Some (True, AlreadyBoundSubscribed)), s4)"
    unfolding precheck_subscribed_run [OF assms a [THEN conjunct1] a [THEN conjunct2]]
    by (auto simp: store_then_return_def has_email_def split: option.splits)
next
  fix s3 s4 acct
  assume a: "click_subscribe_early env button s2 = (Val (), s3) \<and>
            scan_markers env [FrameLocator payment_iframe, Page] subscribed_selectors s3
              = (Val True, s4)"
  assume "account_info = Some acct \<and> has_email account_info"
    and "unit_result env (clock s4) (MoveToSubscribed (account_line acct)) = Inr ()"
  then show "auto_bind_card env card_info account_info s0
                    = (Val (Some (True, AlreadyBoundSubscribed)),
                       made (MoveToSubscribed (account_line acct)) s4)"
    unfolding precheck_subscribed_run [OF assms a [THEN conjunct1] a [THEN conjunct2]]
    by (auto simp: store_then_return_def has_email_def)
next
  fix s3 s4 acct x
  assume a: "click_subscribe_early env button s2 = (Val (), s3) \<and>
            scan_markers env [FrameLocator payment_iframe, Page] subscribed_selectors s3
              = (Val True, s4)"
  assume "account_info = Some acct \<and> has_email account_info"
    and "unit_result env (clock s4) (MoveToSubscribed (account_line acct)) = Inl (Exn x)"
  then show "auto_bind_card env card_info account_info s0
                    = (Val (Some (True, AlreadyBound)),
                       made (MoveToSubscribed (account_line acct)) s4)"
    unfolding precheck_subscribed_run [OF assms a [THEN conjunct1] a [THEN conjunct2]]
    by (auto simp: store_then_return_def has_email_def)
next
  fix s3 s4 acct x
  assume a: "click_subscribe_early env button s2 = (Val (), s3) \<and>
            scan_markers env [FrameLocator payment_iframe, Page] subscribed_selectors s3
              = (Val True, s4)"
  assume "account_info = Some acct \<and> has_email account_info"
    and "unit_result env (clock s4) (MoveToSubscribed (account_line acct)) = Inl (BaseExn x)"
  then show "auto_bind_card env card_info account_info s0
                    = (Exc (BaseExn x), made (MoveToSubscribed (account_line acct)) s4)"
    unfolding precheck_subscribed_run [OF assms a [THEN conjunct1] a [THEN conjunct2]]
    by (auto simp: store_then_return_def has_email_def)
next
  fix x t3
  assume c: "click_subscribe_early env button s2 = (Exc (Exn x), t3)"
  show "seq (before_precheck env account_info) (precheck env account_info) s0 = (Val (), t3)"
    by (rule precheck_click_raises [OF assms c])
next
  fix x t3
  assume c: "click_subscribe_early env button s2 = (Exc (Exn x), t3)"
  show "before_card_entry env (effective_card env card_info) account_info s0
              = find_card_form env (effective_card env card_info) t3"
    by (rule before_card_entry_after_precheck [OF precheck_click_raises [OF assms c]])
next
  fix x t3
  assume "click_subscribe_early env button s2 = (Exc (BaseExn x), t3)"
  then show "auto_bind_card env card_info account_info s0 = (Exc (BaseExn x), t3)"
    by (rule precheck_click_raises_base [OF assms])
next
  fix r t3
  show "click_subscribe_early env button s2 \<noteq> (Ret r, t3)"
    using never_ret_click_subscribe_early [of env button]
    by (cases r) (simp add: never_ret_def)
qed

text \<open>
  The theorem in the environment of the bound card, with an account that has an
  e-mail address: the store is called with the line of the account, and the run
  returns success. And on the page on which the screenshot of line 337 raises: the
  button is clicked, the screenshot is the last call of the pre-check, and the run
  goes on with the search for the card form from there.
\<close>

theorem already_bound_subscribed_witness:
  "has_email (Some test_account)
   \<and> account_line test_account = ''a@x.com----pw----rec----JBSW''
   \<and> unit_result env_bound (clock (after_marker_scan env_bound (Some test_account)))
        (MoveToSubscribed (account_line test_account)) = Inr ()
   \<and> auto_bind_card env_bound None (Some test_account) init
     = (Val (Some (True, AlreadyBoundSubscribed)),
        made (MoveToSubscribed ''a@x.com----pw----rec----JBSW'')
          (after_marker_scan env_bound (Some test_account)))
   \<and> click_subscribe_early env_shot_fails subscribe_span (at_subscribe_button env_shot_fails None)
     = (Exc (Exn ''Error: Page.screenshot: Timeout 30000ms exceeded''),
        made (Screenshot ''step_subscribe_existing_card.png'')
          (made (ClickForce subscribe_span) (at_subscribe_button env_shot_fails None)))
   \<and> seq (before_precheck env_shot_fails None) (precheck env_shot_fails None) init
     = (Val (),
        made (Screenshot ''step_subscribe_existing_card.png'')
          (made (ClickForce subscribe_span) (at_subscribe_button env_shot_fails None)))
   \<and> before_card_entry env_shot_fails (effective_card env_shot_fails None) None init
     = find_card_form env_shot_fails (effective_card env_shot_fails None)
         (made (Screenshot ''step_subscribe_existing_card.png'')
           (made (ClickForce subscribe_span) (at_subscribe_button env_shot_fails None)))"
proof -
  have ok: "\<And>p. all_ok (Screenshot p) = Inr ()" "\<And>l. all_ok (ClickForce l) = Inr ()"
    and page: "\<And>selector. count_bound (Count (First (Locator Page selector))) = 0"
    and span: "count_bound (Count subscribe_span) = 1"
    by (simp_all add: all_ok_def count_bound_def subscribe_span_def)
  have e: "has_email (Some test_account)"
    and l: "account_line test_account = ''a@x.com----pw----rec----JBSW''"
    by (simp_all add: has_email_def test_account_def dict_get_def truthy_def account_line_def
        dict_get_default_def)
  have a: "unit_result env_bound (clock (after_marker_scan env_bound (Some test_account)))
        (MoveToSubscribed (account_line test_account)) = Inr ()"
    by (simp add: env_bound_def static_env_def all_ok_def)
  have s1: "before_precheck env_bound (Some test_account) init
            = (Val (), snd (before_precheck env_bound (Some test_account) init))"
    unfolding env_bound_def by (rule pair_fstI) (rule static_before_precheck [of all_ok count_bound, OF ok(1) page])
  have s2: "find_subscribe_early env_bound (FrameLocator payment_iframe)
              (snd (before_precheck env_bound (Some test_account) init))
            = (Val (Some subscribe_span),
               snd (find_subscribe_early env_bound (FrameLocator payment_iframe)
                 (snd (before_precheck env_bound (Some test_account) init))))"
    unfolding env_bound_def by (rule pair_fstI) (rule static_find_subscribe_early [of count_bound, OF span])
  have s3: "click_subscribe_early env_bound subscribe_span
              (snd (find_subscribe_early env_bound (FrameLocator payment_iframe)
                 (snd (before_precheck env_bound (Some test_account) init))))
            = (Val (), snd (click_subscribe_early env_bound subscribe_span
              (snd (find_subscribe_early env_bound (FrameLocator payment_iframe)
                 (snd (before_precheck env_bound (Some test_account) init))))))"
    unfolding env_bound_def by (rule pair_fstI) (rule static_click_subscribe_early [of all_ok, OF ok])
  have s4: "scan_markers env_bound [FrameLocator payment_iframe, Page] subscribed_selectors
              (snd (click_subscribe_early env_bound subscribe_span
              (snd (find_subscribe_early env_bound (FrameLocator payment_iframe)
                 (snd (before_precheck env_bound (Some test_account) init))))))
            = (Val True, after_marker_scan env_bound (Some test_account))"
    unfolding env_bound_def after_marker_scan_def
    by (rule pair_fstI) (rule bound_scan_subscribed)
  have w1: "auto_bind_card env_bound None (Some test_account) init
     = (Val (Some (True, AlreadyBoundSubscribed)),
        made (MoveToSubscribed (account_line test_account))
          (after_marker_scan env_bound (Some test_account)))"
    by (rule already_bound_subscribed [OF s1 s2, of None, THEN conjunct2, THEN conjunct1,
      THEN spec, THEN spec,
      THEN mp, OF conjI, OF s3 s4, THEN conjunct2, THEN spec,
      of test_account, THEN mp, OF conjI, OF refl e, THEN conjunct1, THEN mp, OF a])
  have t1: "before_precheck env_shot_fails None init
            = (Val (), snd (before_precheck env_shot_fails None init))"
    by (rule pair_fstI)
       (simp add: prog_defs before_precheck_def login_gate_def check_and_login_def
          stage_cta_def click_cta_def click_subscribe_def selector_defs Let_def static_env_def
          env_shot_fails_def shot_fails_def count_bound_def subscribe_span_def)
  have t2: "find_subscribe_early env_shot_fails (FrameLocator payment_iframe)
              (snd (before_precheck env_shot_fails None init))
            = (Val (Some subscribe_span), at_subscribe_button env_shot_fails None)"
    unfolding env_shot_fails_def at_subscribe_button_def
    by (rule pair_fstI) (rule static_find_subscribe_early [of count_bound, OF span])
  have t3: "click_subscribe_early env_shot_fails subscribe_span
              (at_subscribe_button env_shot_fails None)
     = (Exc (Exn ''Error: Page.screenshot: Timeout 30000ms exceeded''),
        made (Screenshot ''step_subscribe_existing_card.png'')
          (made (ClickForce subscribe_span) (at_subscribe_button env_shot_fails None)))"
    by (simp add: prog_defs click_subscribe_early_def static_env_def env_shot_fails_def
        shot_fails_def made_def)
  note w2 = already_bound_subscribed [OF t1 t2, of None, THEN conjunct2, THEN conjunct2,
      THEN conjunct1, THEN spec, THEN spec, THEN mp, OF t3]
  from w1 w2 t3 e l a show ?thesis by simp
qed

text \<open>
  As the claim states it, the account store is moved to subscribed in every such run.
  In the same environment with no account data (the default of \<open>account_info\<close>), the
  pre-check finds the button and the marker, the run returns success, and the store
  has not been called.
\<close>

theorem already_bound_no_account_counterexample:
  "auto_bind_card env_bound None None init
     = (Val (Some (True, AlreadyBoundSubscribed)), after_marker_scan env_bound None)
   \<and> store_calls (after_marker_scan env_bound None) = []"
proof -
  have ok: "\<And>p. all_ok (Screenshot p) = Inr ()" "\<And>l. all_ok (ClickForce l) = Inr ()"
    and page: "\<And>selector. count_bound (Count (First (Locator Page selector))) = 0"
    and span: "count_bound (Count subscribe_span) = 1"
    by (simp_all add: all_ok_def count_bound_def subscribe_span_def)
  have "auto_bind_card env_bound None None init
     = store_then_return env_bound None AlreadyBoundSubscribed AlreadyBound
         (after_marker_scan env_bound None)"
    unfolding after_marker_scan_def env_bound_def
    by (rule precheck_subscribed_run; rule pair_fstI)
       (rule static_before_precheck [of all_ok count_bound, OF ok(1) page] static_find_subscribe_early [of count_bound, OF span]
          static_click_subscribe_early [of all_ok, OF ok] bound_scan_subscribed)+
  then have run: "auto_bind_card env_bound None None init
     = (Val (Some (True, AlreadyBoundSubscribed)), after_marker_scan env_bound None)"
    by (simp add: store_then_return_def)
  have "\<not> has_email None" by (simp add: has_email_def)
  from preservesD [OF auto_bind_card_keeps_store [OF this], of env_bound None init]
  have "store_calls (after_marker_scan env_bound None) = store_calls init"
    by (simp only: run snd_conv)
  then have "store_calls (after_marker_scan env_bound None) = []"
    by (simp add: store_calls_def init_def)
  with run show ?thesis by simp
qed

text \<open>
  Claim C5, as the code has it. (a) In the pre-check, when the scans after the click
  find neither the marker \<open>Subscribed\<close> nor an error marker, the run returns
  \<open>(True, AlreadyBound)\<close>, the scans being its last calls. (b) After the card is saved
  and the subscribe button clicked, when the scan does not find the marker, the run
  returns success with the message \<open>SubscribedAssumed\<close>, weaker than
  \<open>SubscribedConfirmed\<close>; the account store is called exactly when \<open>account_info\<close>
  holds an e-mail address, and an \<open>Exception\<close> of the store leaves the result as it is.
\<close>

theorem no_marker_still_success:
  "(before_precheck env account_info sa = (Val (), sb) \<and>
    find_subscribe_early env (FrameLocator payment_iframe) sb = (Val (Some button), sc) \<and>
    click_subscribe_early env button sc = (Val (), sd) \<and>
    scan_markers env [FrameLocator payment_iframe, Page] subscribed_selectors sd
      = (Val False, se) \<and>
    scan_markers env [FrameLocator payment_iframe, Page] error_selectors se = (Val False, sf)
    \<longrightarrow> auto_bind_card env card_info account_info sa = (Val (Some (True, AlreadyBound)), sf))
   \<and> (through_save env (effective_card env card_info) account_info ta = (Val (), tb) \<and>
        press_subscribe env tb = (Val True, tc) \<and>
        scan_subscribed env tc = (Val False, td)
    \<longrightarrow> (\<not> has_email account_info \<longrightarrow>
            auto_bind_card env card_info account_info ta
              = (Val (Some (True, SubscribedAssumed)), td))
       \<and> (\<forall>acct. account_info = Some acct \<and> has_email account_info \<longrightarrow>
            (unit_result env (clock td) (MoveToSubscribed (account_line acct)) = Inr () \<longrightarrow>
               auto_bind_card env card_info account_info ta
                 = (Val (Some (True, SubscribedAssumed)),
                    made (MoveToSubscribed (account_line acct)) td)) \<and>
            (\<forall>x. unit_result env (clock td) (MoveToSubscribed (account_line acct)) = Inl (Exn x) \<longrightarrow>
               auto_bind_card env card_info account_info ta
                 = (Val (Some (True, SubscribedAssumed)),
                    made (MoveToSubscribed (account_line acct)) td)) \<and>
            (\<forall>x. unit_result env (clock td) (MoveToSubscribed (account_line acct))
                    = Inl (BaseExn x) \<longrightarrow>
               auto_bind_card env card_info account_info ta
                 = (Exc (BaseExn x), made (MoveToSubscribed (account_line acct)) td))))"
proof (intro conjI impI)
  assume "before_precheck env account_info sa = (Val (), sb) \<and>
    find_subscribe_early env (FrameLocator payment_iframe) sb = (Val (Some button), sc) \<and>
    click_subscribe_early env button sc = (Val (), sd) \<and>
    scan_markers env [FrameLocator payment_iframe, Page] subscribed_selectors sd
      = (Val False, se) \<and>
    scan_markers env [FrameLocator payment_iframe, Page] error_selectors se = (Val False, sf)"
  then show "auto_bind_card env card_info account_info sa = (Val (Some (True, AlreadyBound)), sf)"
    by (intro precheck_soft_run) auto
next
  assume h: "through_save env (effective_card env card_info) account_info ta = (Val (), tb) \<and>
        press_subscribe env tb = (Val True, tc) \<and>
        scan_subscribed env tc = (Val False, td)"
  then have run: "auto_bind_card env card_info account_info ta
         = store_then_return env account_info SubscribedAssumed SubscribedAssumed td"
    by (intro final_unconfirmed_run) auto
  {
    assume "\<not> has_email account_info"
    then show "auto_bind_card env card_info account_info ta
              = (Val (Some (True, SubscribedAssumed)), td)"
      unfolding run by (auto simp: store_then_return_def has_email_def split: option.splits)
  }
  show "\<forall>acct. account_info = Some acct \<and> has_email account_info \<longrightarrow>
            (unit_result env (clock td) (MoveToSubscribed (account_line acct)) = Inr () \<longrightarrow>
               auto_bind_card env card_info account_info ta
                 = (Val (Some (True, SubscribedAssumed)),
                    made (MoveToSubscribed (account_line acct)) td)) \<and>
            (\<forall>x. unit_result env (clock td) (MoveToSubscribed (account_line acct)) = Inl (Exn x) \<longrightarrow>
               auto_bind_card env card_info account_info ta
                 = (Val (Some (True, SubscribedAssumed)),
                    made (MoveToSubscribed (account_line acct)) td)) \<and>
            (\<forall>x. unit_result env (clock td) (MoveToSubscribed (account_line acct))
                    = Inl (BaseExn x) \<longrightarrow>
               auto_bind_card env card_info account_info ta
                 = (Exc (BaseExn x), made (MoveToSubscribed (account_line acct)) td))"
    unfolding run by (auto simp: store_then_return_def has_email_def split: option.splits)
qed

text \<open>
  The theorem in two environments, with an account that has an e-mail address: the
  payment frame with a subscribe button and no marker, and the card form whose
  subscription shows no marker.
\<close>

theorem no_marker_still_success_witness:
  "auto_bind_card env_soft None (Some test_account) init
     = (Val (Some (True, AlreadyBound)), after_error_scan env_soft (Some test_account))
   \<and> has_email (Some test_account)
   \<and> auto_bind_card (env_form 4) (Some test_card) (Some test_account) init
     = (Val (Some (True, SubscribedAssumed)),
        made (MoveToSubscribed (account_line test_account))
          (after_final_scan (env_form 4) (Some test_account)))"
proof -
  have ok: "\<And>p. all_ok (Screenshot p) = Inr ()" "\<And>l. all_ok (ClickForce l) = Inr ()"
    and page: "\<And>selector. count_soft (Count (First (Locator Page selector))) = 0"
    and span: "count_soft (Count subscribe_span) = 1"
    by (simp_all add: all_ok_def count_soft_def subscribe_span_def)
  let ?a = "Some test_account"
  let ?s1 = "snd (before_precheck env_soft ?a init)"
  let ?s2 = "snd (find_subscribe_early env_soft (FrameLocator payment_iframe) ?s1)"
  let ?s3 = "snd (click_subscribe_early env_soft subscribe_span ?s2)"
  have a: "before_precheck env_soft ?a init = (Val (), ?s1) \<and>
    find_subscribe_early env_soft (FrameLocator payment_iframe) ?s1
      = (Val (Some subscribe_span), ?s2) \<and>
    click_subscribe_early env_soft subscribe_span ?s2 = (Val (), ?s3) \<and>
    scan_markers env_soft [FrameLocator payment_iframe, Page] subscribed_selectors ?s3
      = (Val False, after_marker_scan env_soft ?a) \<and>
    scan_markers env_soft [FrameLocator payment_iframe, Page] error_selectors
      (after_marker_scan env_soft ?a) = (Val False, after_error_scan env_soft ?a)"
    unfolding after_error_scan_def after_marker_scan_def
    by (intro conjI pair_fstI soft_scan_subscribed soft_scan_error)
       (simp_all only: env_soft_def static_before_precheck [of all_ok count_soft, OF ok(1) page]
          static_find_subscribe_early [of count_soft, OF span] static_click_subscribe_early [of all_ok, OF ok])
  let ?t1 = "snd (through_save (env_form 4) test_card ?a init)"
  let ?t2 = "snd (press_subscribe (env_form 4) ?t1)"
  have c: "effective_card (env_form 4) (Some test_card) = test_card"
    by (simp add: effective_card_def)
  have b: "through_save (env_form 4) (effective_card (env_form 4) (Some test_card)) ?a init
             = (Val (), ?t1) \<and>
        press_subscribe (env_form 4) ?t1 = (Val True, ?t2) \<and>
        scan_subscribed (env_form 4) ?t2 = (Val False, after_final_scan (env_form 4) ?a)"
    unfolding after_final_scan_def c
    by (intro conjI pair_fstI form_through_save form_press_subscribe form_scan_subscribed)
  have e: "has_email ?a"
    by (simp add: has_email_def test_account_def dict_get_def truthy_def)
  have m: "unit_result (env_form 4) (clock (after_final_scan (env_form 4) ?a))
             (MoveToSubscribed (account_line test_account)) = Inr ()"
    by (simp add: env_form_def static_env_def all_ok_def)
  note t = no_marker_still_success [where env = env_soft and account_info = ?a and sa = init
      and sb = ?s1 and button = subscribe_span and sc = ?s2 and sd = ?s3
      and se = "after_marker_scan env_soft ?a" and sf = "after_error_scan env_soft ?a"
      and card_info = None]
  note u = no_marker_still_success [where env = "env_form 4" and account_info = ?a
      and card_info = "Some test_card" and ta = init and tb = ?t1 and tc = ?t2
      and td = "after_final_scan (env_form 4) ?a"]
  from t [THEN conjunct1, THEN mp, OF a]
    u [THEN conjunct2, THEN mp, OF b, THEN conjunct2, THEN spec, of test_account, THEN mp,
      OF conjI, OF refl e, THEN conjunct1, THEN mp, OF m] e
  show ?thesis by simp
qed

text \<open>
  As the claim states it, the account store is updated whenever the marker is not
  seen after the save. In the environment of the card form with no account data, the
  card is saved, the marker is not seen, the run returns success, and the store has
  not been called.
\<close>

theorem unconfirmed_no_account_counterexample:
  "auto_bind_card (env_form 4) None None init
     = (Val (Some (True, SubscribedAssumed)), after_final_scan (env_form 4) None)
   \<and> store_calls (after_final_scan (env_form 4) None) = []"
proof -
  have c: "effective_card (env_form 4) None = test_card"
    by (simp add: effective_card_def env_form_def static_env_def)
  have "auto_bind_card (env_form 4) None None init
     = store_then_return (env_form 4) None SubscribedAssumed SubscribedAssumed
         (snd (scan_subscribed (env_form 4)
           (snd (press_subscribe (env_form 4)
             (snd (through_save (env_form 4) (effective_card (env_form 4) None) None init))))))"
    by (rule final_unconfirmed_run; rule pair_fstI)
       (simp_all only: c form_through_save form_press_subscribe form_scan_subscribed)
  then have run: "auto_bind_card (env_form 4) None None init
     = (Val (Some (True, SubscribedAssumed)), after_final_scan (env_form 4) None)"
    by (simp add: store_then_return_def after_final_scan_def c)
  have "\<not> has_email None" by (simp add: has_email_def)
  from preservesD [OF auto_bind_card_keeps_store [OF this], of "env_form 4" None init]
  have "store_calls (after_final_scan (env_form 4) None) = store_calls init"
    by (simp only: run snd_conv)
  then have "store_calls (after_final_scan (env_form 4) None) = []"
    by (simp add: store_calls_def init_def)
  with run show ?thesis by simp
qed

lemma fill_card_number_ValD:
  assumes "fill_card_number env f card_info s = (Val n, s1)"
  shows "3 \<le> n \<and> count_result env (clock s) (Count (all_inputs f)) = Inr n \<and>
         (\<exists>number. dict_get card_info ''number'' = Some number \<and>
            s1 = made (Fill (Nth (all_inputs f) 0) number)
                   (made (Click (Nth (all_inputs f) 0)) (made (Count (all_inputs f)) s)))"
  using assms
  by (auto simp: fill_card_number_def prog_defs Let_def
      split: sum.splits if_splits option.splits exn.splits)

lemma fill_exp_date_ValD:
  assumes "fill_exp_date env f card_info s = (Val (), s1)"
  shows "s1 = made (Fill (Nth (all_inputs f) 1)
                    (fst (normalize_exp_parts (dict_get_default card_info ''exp_month'' [])
                                              (dict_get_default card_info ''exp_year'' [])) @
                     snd (normalize_exp_parts (dict_get_default card_info ''exp_month'' [])
                                              (dict_get_default card_info ''exp_year'' []))))
                (made (Click (Nth (all_inputs f) 1)) s)"
  using assms
  by (auto simp: fill_exp_date_def try_except_def bind_def seq_def ret_def sleep_def
      early_return_def click_def fill_def perform_def Let_def
      split: sum.splits if_splits option.splits exn.splits prod.splits)

lemma fill_cvv_ValD:
  assumes "fill_cvv env f card_info s = (Val (), s1)"
  shows "\<exists>cvv. dict_get card_info ''cvv'' = Some cvv \<and>
           s1 = made (Fill (Nth (all_inputs f) 2) cvv) (made (Click (Nth (all_inputs f) 2)) s)"
  using assms
  by (auto simp: fill_cvv_def prog_defs Let_def
      split: sum.splits if_splits option.splits exn.splits)

text \<open>
  The loop of lines 653 to 661, over the indices from \<open>a\<close> to \<open>b - 1\<close>, whatever its
  outcome: when it fills an input, its calls are the queries of the \<open>type\<close> of the
  inputs from \<open>a\<close> to that one, a click on it and its fill with the postal code; that
  input is the final one or its \<open>type\<close> was answered as \<open>tel\<close>, and no input before
  it was.
\<close>

lemma zip_loop_exact:
  assumes body: "\<And>i. body i =
      bind (get_attribute env (Nth inputs i) ''type'') (\<lambda>input_type.
        if input_type = Some ''tel'' \<or> i = final
        then seq (click env (Nth inputs i))
            (seq (fill env (Nth inputs i) zip_code) (ret (Some ())))
        else ret None)"
    and run: "find_first body [a ..< b] s = (r, s')"
  shows "\<exists>calls. trace s' = trace s @ calls \<and>
     (\<forall>l v. Fill l v \<in> set calls \<longrightarrow>
        (\<exists>i. a \<le> i \<and> i < b \<and> l = Nth inputs i \<and> v = zip_code \<and>
           calls = map (\<lambda>j. GetAttribute (Nth inputs j) ''type'') [a ..< Suc i] @
                   [Click (Nth inputs i), Fill (Nth inputs i) zip_code] \<and>
           (i = final \<or>
            text_result env (clock s + (i - a)) (GetAttribute (Nth inputs i) ''type'')
              = Inr (Some ''tel'')) \<and>
           (\<forall>j. a \<le> j \<and> j < i \<longrightarrow>
              text_result env (clock s + (j - a)) (GetAttribute (Nth inputs j) ''type'')
                \<noteq> Inr (Some ''tel''))))"
  using run
proof (induction "b - a" arbitrary: a s)
  case 0
  then show ?case by (simp add: ret_def)
next
  case (Suc d)
  let ?attr = "\<lambda>j. GetAttribute (Nth inputs j) ''type''"
  from Suc.hyps(2) have ab: "a < b" and d: "d = b - Suc a" by auto
  then have upt: "[a ..< b] = a # [Suc a ..< b]" by (simp add: upt_conv_Cons)
  show ?case
  proof (cases "text_result env (clock s) (?attr a)")
    case (Inl e)
    with Suc.prems have "s' = made (?attr a) s"
      by (simp add: upt body prog_defs)
    then show ?thesis by simp
  next
    case (Inr input_type)
    show ?thesis
    proof (cases "input_type = Some ''tel'' \<or> a = final")
      case False
      with Inr Suc.prems have "find_first body [Suc a ..< b] (made (?attr a) s) = (r, s')"
        by (simp add: upt body prog_defs)
      from Suc.hyps(1) [OF d this] obtain calls where
        t: "trace s' = trace (made (?attr a) s) @ calls" and
        f: "\<forall>l v. Fill l v \<in> set calls \<longrightarrow>
          (\<exists>i. Suc a \<le> i \<and> i < b \<and> l = Nth inputs i \<and> v = zip_code \<and>
             calls = map ?attr [Suc a ..< Suc i] @
                     [Click (Nth inputs i), Fill (Nth inputs i) zip_code] \<and>
             (i = final \<or>
              text_result env (clock (made (?attr a) s) + (i - Suc a)) (?attr i)
                = Inr (Some ''tel'')) \<and>
             (\<forall>j. Suc a \<le> j \<and> j < i \<longrightarrow>
                text_result env (clock (made (?attr a) s) + (j - Suc a)) (?attr j)
                  \<noteq> Inr (Some ''tel'')))"
        by blast
      have "\<forall>l v. Fill l v \<in> set (?attr a # calls) \<longrightarrow>
          (\<exists>i. a \<le> i \<and> i < b \<and> l = Nth inputs i \<and> v = zip_code \<and>
             ?attr a # calls = map ?attr [a ..< Suc i] @
                     [Click (Nth inputs i), Fill (Nth inputs i) zip_code] \<and>
             (i = final \<or>
              text_result env (clock s + (i - a)) (?attr i) = Inr (Some ''tel'')) \<and>
             (\<forall>j. a \<le> j \<and> j < i \<longrightarrow>
                text_result env (clock s + (j - a)) (?attr j) \<noteq> Inr (Some ''tel'')))"
      proof (intro allI impI)
        fix l v
        assume "Fill l v \<in> set (?attr a # calls)"
        then have "Fill l v \<in> set calls" by simp
        with f obtain i where
          i: "Suc a \<le> i" "i < b" "l = Nth inputs i" "v = zip_code"
            "calls = map ?attr [Suc a ..< Suc i] @
                     [Click (Nth inputs i), Fill (Nth inputs i) zip_code]"
            "i = final \<or>
              text_result env (clock (made (?attr a) s) + (i - Suc a)) (?attr i)
                = Inr (Some ''tel'')"
            "\<forall>j. Suc a \<le> j \<and> j < i \<longrightarrow>
                text_result env (clock (made (?attr a) s) + (j - Suc a)) (?attr j)
                  \<noteq> Inr (Some ''tel'')"
          by blast
        have c: "\<And>j. Suc a \<le> j \<Longrightarrow> clock (made (?attr a) s) + (j - Suc a) = clock s + (j - a)"
          by simp
        have u: "[a ..< Suc i] = a # [Suc a ..< Suc i]"
          using i(1) by (simp add: upt_conv_Cons)
        have early: "\<forall>j. a \<le> j \<and> j < i \<longrightarrow>
                text_result env (clock s + (j - a)) (?attr j) \<noteq> Inr (Some ''tel'')"
        proof (intro allI impI)
          fix j
          assume j: "a \<le> j \<and> j < i"
          show "text_result env (clock s + (j - a)) (?attr j) \<noteq> Inr (Some ''tel'')"
          proof (cases "j = a")
            case True
            with Inr False show ?thesis by simp
          next
            case False
            with j have sj: "Suc a \<le> j" by simp
            with i(7) j
            have "text_result env (clock (made (?attr a) s) + (j - Suc a)) (?attr j)
                  \<noteq> Inr (Some ''tel'')"
              by blast
            then show ?thesis unfolding c [OF sj] .
          qed
        qed
        have "i = final \<or> text_result env (clock s + (i - a)) (?attr i) = Inr (Some ''tel'')"
          using i(6) unfolding c [OF i(1)] .
        with i u early
        show "\<exists>i. a \<le> i \<and> i < b \<and> l = Nth inputs i \<and> v = zip_code \<and>
             ?attr a # calls = map ?attr [a ..< Suc i] @
                     [Click (Nth inputs i), Fill (Nth inputs i) zip_code] \<and>
             (i = final \<or>
              text_result env (clock s + (i - a)) (?attr i) = Inr (Some ''tel'')) \<and>
             (\<forall>j. a \<le> j \<and> j < i \<longrightarrow>
                text_result env (clock s + (j - a)) (?attr j) \<noteq> Inr (Some ''tel''))"
          by (intro exI [of _ i]) simp
      qed
      with t show ?thesis by (intro exI [of _ "?attr a # calls"]) simp
    next
      case True
      have "trace s' = trace s @ [?attr a, Click (Nth inputs a)] \<or>
            trace s' = trace s @ [?attr a, Click (Nth inputs a), Fill (Nth inputs a) zip_code]"
        using Inr True Suc.prems
        by (auto simp: upt body prog_defs split: sum.splits)
      then show ?thesis
      proof
        assume "trace s' = trace s @ [?attr a, Click (Nth inputs a)]"
        then show ?thesis by simp
      next
        assume t: "trace s' = trace s @
            [?attr a, Click (Nth inputs a), Fill (Nth inputs a) zip_code]"
        have "a = final \<or> text_result env (clock s) (?attr a) = Inr (Some ''tel'')"
          using True Inr by auto
        with t ab show ?thesis
          by (intro exI [of _ "[?attr a, Click (Nth inputs a), Fill (Nth inputs a) zip_code]"])
             auto
      qed
    qed
  qed
qed

text \<open>
  The same loop when nothing raises: the first input that is the final one or whose
  \<open>type\<close> is answered as \<open>tel\<close> is clicked and filled, and the loop ends.
\<close>

lemma zip_loop_hit:
  assumes body: "\<And>i. body i =
      bind (get_attribute env (Nth inputs i) ''type'') (\<lambda>input_type.
        if input_type = Some ''tel'' \<or> i = final
        then seq (click env (Nth inputs i))
            (seq (fill env (Nth inputs i) zip_code) (ret (Some ())))
        else ret None)"
    and "a \<le> k" and "k < b"
    and "\<forall>j. a \<le> j \<and> j < k \<longrightarrow> j \<noteq> final \<and>
           (\<exists>t. text_result env (clock s + (j - a)) (GetAttribute (Nth inputs j) ''type'') = Inr t
                \<and> t \<noteq> Some ''tel'')"
    and "\<exists>t. text_result env (clock s + (k - a)) (GetAttribute (Nth inputs k) ''type'') = Inr t
            \<and> (t = Some ''tel'' \<or> k = final)"
    and "unit_result env (Suc (clock s + (k - a))) (Click (Nth inputs k)) = Inr ()"
    and "unit_result env (Suc (Suc (clock s + (k - a)))) (Fill (Nth inputs k) zip_code) = Inr ()"
  shows "\<exists>s'. find_first body [a ..< b] s = (Val (Some ()), s') \<and>
           trace s' = trace s @ map (\<lambda>j. GetAttribute (Nth inputs j) ''type'') [a ..< Suc k] @
                      [Click (Nth inputs k), Fill (Nth inputs k) zip_code]"
  using assms(2-)
proof (induction "k - a" arbitrary: a s)
  case 0
  then have ka: "k = a" by simp
  with 0 have upt: "[a ..< b] = a # [Suc a ..< b]" by (simp add: upt_conv_Cons)
  from 0(5,6,7) ka show ?case
    by (auto simp: upt body prog_defs)
next
  case (Suc d)
  let ?attr = "\<lambda>j. GetAttribute (Nth inputs j) ''type''"
  from Suc.hyps(2) have ak: "a < k" and d: "d = k - Suc a" by auto
  with Suc.prems(2) have upt: "[a ..< b] = a # [Suc a ..< b]" by (simp add: upt_conv_Cons)
  from Suc.prems(3) ak obtain t where
    t: "text_result env (clock s) (?attr a) = Inr t" "t \<noteq> Some ''tel''" "a \<noteq> final"
    by (metis add.right_neutral cancel_comm_monoid_add_class.diff_cancel le_refl)
  let ?s1 = "made (?attr a) s"
  have c: "\<And>j. Suc a \<le> j \<Longrightarrow> clock ?s1 + (j - Suc a) = clock s + (j - a)"
    by simp
  have step: "find_first body [a ..< b] s = find_first body [Suc a ..< b] ?s1"
    using t by (simp add: upt body prog_defs)
  have "\<exists>s'. find_first body [Suc a ..< b] ?s1 = (Val (Some ()), s') \<and>
           trace s' = trace ?s1 @ map ?attr [Suc a ..< Suc k] @
                      [Click (Nth inputs k), Fill (Nth inputs k) zip_code]"
  proof (rule Suc.hyps(1) [OF d])
    show "Suc a \<le> k" using ak by simp
    show "k < b" by (rule Suc.prems(2))
    show "\<forall>j. Suc a \<le> j \<and> j < k \<longrightarrow> j \<noteq> final \<and>
           (\<exists>t. text_result env (clock ?s1 + (j - Suc a)) (?attr j) = Inr t \<and> t \<noteq> Some ''tel'')"
      using Suc.prems(3) c by (metis Suc_leD)
    show "\<exists>t. text_result env (clock ?s1 + (k - Suc a)) (?attr k) = Inr t
            \<and> (t = Some ''tel'' \<or> k = final)"
      using Suc.prems(4) c [of k] ak by simp
    show "unit_result env (Suc (clock ?s1 + (k - Suc a))) (Click (Nth inputs k)) = Inr ()"
      using Suc.prems(5) c [of k] ak by simp
    show "unit_result env (Suc (Suc (clock ?s1 + (k - Suc a)))) (Fill (Nth inputs k) zip_code)
          = Inr ()"
      using Suc.prems(6) c [of k] ak by simp
  qed
  then obtain s' where
    "find_first body [Suc a ..< b] ?s1 = (Val (Some ()), s')"
    "trace s' = trace ?s1 @ map ?attr [Suc a ..< Suc k] @
                      [Click (Nth inputs k), Fill (Nth inputs k) zip_code]"
    by blast
  moreover have "[a ..< Suc k] = a # [Suc a ..< Suc k]"
    using ak by (simp add: upt_conv_Cons)
  ultimately show ?case using step by simp
qed

lemma swallowed_state:
  "try_except (seq m (sleep k)) (\<lambda>e. ret ()) s = (r, s') \<Longrightarrow> s' = snd (m s)"
  by (cases "m s")
     (auto simp: try_except_def seq_def bind_def sleep_def ret_def split: res.splits exn.splits)

lemma fill_zip_loop:
  assumes "dict_get_default card_info ''zip'' [] \<noteq> []"
  shows "fill_zip env f card_info n =
     try_except
       (seq (find_first (\<lambda>i.
               bind (get_attribute env (Nth (all_inputs f) i) ''type'') (\<lambda>input_type.
                 if input_type = Some ''tel'' \<or> i = n - 1
                 then seq (click env (Nth (all_inputs f) i))
                     (seq (fill env (Nth (all_inputs f) i) (dict_get_default card_info ''zip'' []))
                          (ret (Some ())))
                 else ret None)) [3 ..< n])
            (sleep 500))
       (\<lambda>e. ret ())"
  using assms by (simp add: fill_zip_def Let_def)

lemma fill_zip_exact:
  assumes "fill_zip env f card_info n s = (r, s')"
  shows "\<exists>calls. trace s' = trace s @ calls \<and>
     (dict_get_default card_info ''zip'' [] = [] \<or> n \<le> 3 \<longrightarrow> calls = []) \<and>
     (\<forall>l v. Fill l v \<in> set calls \<longrightarrow>
        (\<exists>i. 3 \<le> i \<and> i < n \<and> l = Nth (all_inputs f) i \<and>
           v = dict_get_default card_info ''zip'' [] \<and> v \<noteq> [] \<and>
           calls = map (\<lambda>j. GetAttribute (Nth (all_inputs f) j) ''type'') [3 ..< Suc i] @
                   [Click (Nth (all_inputs f) i),
                    Fill (Nth (all_inputs f) i) (dict_get_default card_info ''zip'' [])] \<and>
           (i = n - 1 \<or>
            text_result env (clock s + (i - 3)) (GetAttribute (Nth (all_inputs f) i) ''type'')
              = Inr (Some ''tel'')) \<and>
           (\<forall>j. 3 \<le> j \<and> j < i \<longrightarrow>
              text_result env (clock s + (j - 3)) (GetAttribute (Nth (all_inputs f) j) ''type'')
                \<noteq> Inr (Some ''tel''))))"
proof (cases "dict_get_default card_info ''zip'' [] = []")
  case True
  with assms have "s' = s" by (simp add: fill_zip_def ret_def Let_def)
  then show ?thesis by simp
next
  case False
  define body where "body = (\<lambda>i.
      bind (get_attribute env (Nth (all_inputs f) i) ''type'') (\<lambda>input_type.
        if input_type = Some ''tel'' \<or> i = n - 1
        then seq (click env (Nth (all_inputs f) i))
            (seq (fill env (Nth (all_inputs f) i) (dict_get_default card_info ''zip'' []))
                 (ret (Some ())))
        else ret None))"
  have "fill_zip env f card_info n
        = try_except (seq (find_first body [3 ..< n]) (sleep 500)) (\<lambda>e. ret ())"
    unfolding body_def using False by (rule fill_zip_loop)
  with assms have "s' = snd (find_first body [3 ..< n] s)" by (simp add: swallowed_state)
  then have l: "find_first body [3 ..< n] s = (fst (find_first body [3 ..< n] s), s')" by simp
  from zip_loop_exact [of body env "all_inputs f" "n - 1" "dict_get_default card_info ''zip'' []",
      OF _ l]
  obtain calls where
    c: "trace s' = trace s @ calls" and
    f: "\<forall>l v. Fill l v \<in> set calls \<longrightarrow>
        (\<exists>i. 3 \<le> i \<and> i < n \<and> l = Nth (all_inputs f) i \<and>
           v = dict_get_default card_info ''zip'' [] \<and>
           calls = map (\<lambda>j. GetAttribute (Nth (all_inputs f) j) ''type'') [3 ..< Suc i] @
                   [Click (Nth (all_inputs f) i),
                    Fill (Nth (all_inputs f) i) (dict_get_default card_info ''zip'' [])] \<and>
           (i = n - 1 \<or>
            text_result env (clock s + (i - 3)) (GetAttribute (Nth (all_inputs f) i) ''type'')
              = Inr (Some ''tel'')) \<and>
           (\<forall>j. 3 \<le> j \<and> j < i \<longrightarrow>
              text_result env (clock s + (j - 3)) (GetAttribute (Nth (all_inputs f) j) ''type'')
                \<noteq> Inr (Some ''tel'')))"
    unfolding body_def by blast
  have "n \<le> 3 \<longrightarrow> calls = []"
  proof
    assume "n \<le> 3"
    then have "find_first body [3 ..< n] s = (Val None, s)" by (simp add: ret_def)
    with l have "s' = s" by simp
    with c show "calls = []" by simp
  qed
  then have g: "dict_get_default card_info ''zip'' [] = [] \<or> n \<le> 3 \<longrightarrow> calls = []"
    using False by blast
  have "\<forall>l v. Fill l v \<in> set calls \<longrightarrow>
        (\<exists>i. 3 \<le> i \<and> i < n \<and> l = Nth (all_inputs f) i \<and>
           v = dict_get_default card_info ''zip'' [] \<and> v \<noteq> [] \<and>
           calls = map (\<lambda>j. GetAttribute (Nth (all_inputs f) j) ''type'') [3 ..< Suc i] @
                   [Click (Nth (all_inputs f) i),
                    Fill (Nth (all_inputs f) i) (dict_get_default card_info ''zip'' [])] \<and>
           (i = n - 1 \<or>
            text_result env (clock s + (i - 3)) (GetAttribute (Nth (all_inputs f) i) ''type'')
              = Inr (Some ''tel'')) \<and>
           (\<forall>j. 3 \<le> j \<and> j < i \<longrightarrow>
              text_result env (clock s + (j - 3)) (GetAttribute (Nth (all_inputs f) j) ''type'')
                \<noteq> Inr (Some ''tel'')))"
  proof (intro allI impI)
    fix l v
    assume "Fill l v \<in> set calls"
    with f obtain i where
      i: "3 \<le> i" "i < n" "l = Nth (all_inputs f) i" "v = dict_get_default card_info ''zip'' []"
        "calls = map (\<lambda>j. GetAttribute (Nth (all_inputs f) j) ''type'') [3 ..< Suc i] @
                   [Click (Nth (all_inputs f) i),
                    Fill (Nth (all_inputs f) i) (dict_get_default card_info ''zip'' [])]"
        "i = n - 1 \<or>
            text_result env (clock s + (i - 3)) (GetAttribute (Nth (all_inputs f) i) ''type'')
              = Inr (Some ''tel'')"
        "\<forall>j. 3 \<le> j \<and> j < i \<longrightarrow>
              text_result env (clock s + (j - 3)) (GetAttribute (Nth (all_inputs f) j) ''type'')
                \<noteq> Inr (Some ''tel'')"
      by blast
    have vne: "v \<noteq> []" using i(4) False by simp
    from i vne
    show "\<exists>i. 3 \<le> i \<and> i < n \<and> l = Nth (all_inputs f) i \<and>
           v = dict_get_default card_info ''zip'' [] \<and> v \<noteq> [] \<and>
           calls = map (\<lambda>j. GetAttribute (Nth (all_inputs f) j) ''type'') [3 ..< Suc i] @
                   [Click (Nth (all_inputs f) i),
                    Fill (Nth (all_inputs f) i) (dict_get_default card_info ''zip'' [])] \<and>
           (i = n - 1 \<or>
            text_result env (clock s + (i - 3)) (GetAttribute (Nth (all_inputs f) i) ''type'')
              = Inr (Some ''tel'')) \<and>
           (\<forall>j. 3 \<le> j \<and> j < i \<longrightarrow>
              text_result env (clock s + (j - 3)) (GetAttribute (Nth (all_inputs f) j) ''type'')
                \<noteq> Inr (Some ''tel''))"
      by blast
  qed
  with c g show ?thesis by blast
qed

lemma fill_zip_hit:
  assumes "dict_get_default card_info ''zip'' [] \<noteq> []"
    and "3 \<le> k" and "k < n"
    and "\<forall>j. 3 \<le> j \<and> j < k \<longrightarrow>
           (\<exists>t. text_result env (clock s + (j - 3)) (GetAttribute (Nth (all_inputs f) j) ''type'')
                  = Inr t \<and> t \<noteq> Some ''tel'')"
    and "\<exists>t. text_result env (clock s + (k - 3)) (GetAttribute (Nth (all_inputs f) k) ''type'')
              = Inr t \<and> (t = Some ''tel'' \<or> k = n - 1)"
    and "unit_result env (Suc (clock s + (k - 3))) (Click (Nth (all_inputs f) k)) = Inr ()"
    and "unit_result env (Suc (Suc (clock s + (k - 3))))
           (Fill (Nth (all_inputs f) k) (dict_get_default card_info ''zip'' [])) = Inr ()"
  shows "\<exists>s'. fill_zip env f card_info n s = (Val (), s') \<and>
           trace s' = trace s @
             map (\<lambda>j. GetAttribute (Nth (all_inputs f) j) ''type'') [3 ..< Suc k] @
             [Click (Nth (all_inputs f) k),
              Fill (Nth (all_inputs f) k) (dict_get_default card_info ''zip'' [])]"
proof -
  define body where "body = (\<lambda>i.
      bind (get_attribute env (Nth (all_inputs f) i) ''type'') (\<lambda>input_type.
        if input_type = Some ''tel'' \<or> i = n - 1
        then seq (click env (Nth (all_inputs f) i))
            (seq (fill env (Nth (all_inputs f) i) (dict_get_default card_info ''zip'' []))
                 (ret (Some ())))
        else ret None))"
  have z: "fill_zip env f card_info n
        = try_except (seq (find_first body [3 ..< n]) (sleep 500)) (\<lambda>e. ret ())"
    unfolding body_def using assms(1) by (rule fill_zip_loop)
  have early: "\<forall>j. 3 \<le> j \<and> j < k \<longrightarrow> j \<noteq> n - 1 \<and>
           (\<exists>t. text_result env (clock s + (j - 3)) (GetAttribute (Nth (all_inputs f) j) ''type'')
                  = Inr t \<and> t \<noteq> Some ''tel'')"
    using assms(3,4) by auto
  from zip_loop_hit [of body env "all_inputs f" "n - 1" "dict_get_default card_info ''zip'' []"
      3 k n s, OF _ assms(2,3) early assms(5,6,7)]
  obtain s' where
    "find_first body [3 ..< n] s = (Val (Some ()), s')"
    "trace s' = trace s @
             map (\<lambda>j. GetAttribute (Nth (all_inputs f) j) ''type'') [3 ..< Suc k] @
             [Click (Nth (all_inputs f) k),
              Fill (Nth (all_inputs f) k) (dict_get_default card_info ''zip'' [])]"
    unfolding body_def by blast
  then show ?thesis
    by (intro exI [of _ s'])
       (simp add: z try_except_def seq_def bind_def sleep_def ret_def)
qed

text \<open>
  Claim C6, as the code has it. When the card-entry stage runs to its end, its calls
  are: the count of the input elements of the frame (at least three); a click on
  input 0 and its fill with the card number; a click on input 1 and its fill with the
  month followed at once by the year, as \<open>normalize_exp_parts\<close> returns them; a click
  on input 2 and its fill with the CVV; then the calls of the postal-code loop.
  \<^item> The month and the year filled have two characters each when the month given has
    one or two digits and the year given has one, two or at least four.
  \<^item> The loop makes no call when the card has no postal code or the frame has three
    inputs.
  \<^item> When the loop fills an input, with the postal code, its calls are the queries of
    the \<open>type\<close> attribute of the inputs from index 3 to that one, a click on it and
    the fill, and nothing else: the input is the last one or its \<open>type\<close> was answered
    as \<open>tel\<close>, and no input before it had its \<open>type\<close> answered as \<open>tel\<close>.
  \<^item> Conversely, when input \<open>k\<close>, at index 3 or more, is the first whose \<open>type\<close> is
    answered as \<open>tel\<close>, or is the last one and none is, and neither the queries nor
    the click and the fill raise, the loop clicks and fills input \<open>k\<close>.
  The query for input \<open>i\<close> is the call number \<open>4 + i\<close> of the stage.
\<close>

theorem card_entry_fields:
  assumes "card_entry env frame card_info s = (Val (), s')"
  shows "\<exists>number cvv n zip_calls.
     dict_get card_info ''number'' = Some number \<and> dict_get card_info ''cvv'' = Some cvv \<and>
     count_result env (clock s) (Count (all_inputs frame)) = Inr n \<and> 3 \<le> n \<and>
     trace s' = trace s @
       [Count (all_inputs frame),
        Click (Nth (all_inputs frame) 0), Fill (Nth (all_inputs frame) 0) number,
        Click (Nth (all_inputs frame) 1),
        Fill (Nth (all_inputs frame) 1)
          (fst (normalize_exp_parts (dict_get_default card_info ''exp_month'' [])
                                    (dict_get_default card_info ''exp_year'' [])) @
           snd (normalize_exp_parts (dict_get_default card_info ''exp_month'' [])
                                    (dict_get_default card_info ''exp_year'' []))),
        Click (Nth (all_inputs frame) 2), Fill (Nth (all_inputs frame) 2) cvv] @ zip_calls \<and>
     ((length (digits_of (dict_get_default card_info ''exp_month'' [])) = 1 \<or>
       length (digits_of (dict_get_default card_info ''exp_month'' [])) = 2) \<and>
      (length (digits_of (dict_get_default card_info ''exp_year'' [])) = 1 \<or>
       length (digits_of (dict_get_default card_info ''exp_year'' [])) = 2 \<or>
       4 \<le> length (digits_of (dict_get_default card_info ''exp_year'' []))) \<longrightarrow>
      length (fst (normalize_exp_parts (dict_get_default card_info ''exp_month'' [])
                                       (dict_get_default card_info ''exp_year'' []))) = 2 \<and>
      length (snd (normalize_exp_parts (dict_get_default card_info ''exp_month'' [])
                                       (dict_get_default card_info ''exp_year'' []))) = 2) \<and>
     (dict_get_default card_info ''zip'' [] = [] \<or> n = 3 \<longrightarrow> zip_calls = []) \<and>
     (\<forall>l v. Fill l v \<in> set zip_calls \<longrightarrow>
        (\<exists>i. 3 \<le> i \<and> i < n \<and> l = Nth (all_inputs frame) i \<and>
           v = dict_get_default card_info ''zip'' [] \<and> v \<noteq> [] \<and>
           zip_calls =
             map (\<lambda>j. GetAttribute (Nth (all_inputs frame) j) ''type'') [3 ..< Suc i] @
             [Click (Nth (all_inputs frame) i),
              Fill (Nth (all_inputs frame) i) (dict_get_default card_info ''zip'' [])] \<and>
           (i = n - 1 \<or>
            text_result env (clock s + 4 + i) (GetAttribute (Nth (all_inputs frame) i) ''type'')
              = Inr (Some ''tel'')) \<and>
           (\<forall>j. 3 \<le> j \<and> j < i \<longrightarrow>
              text_result env (clock s + 4 + j) (GetAttribute (Nth (all_inputs frame) j) ''type'')
                \<noteq> Inr (Some ''tel'')))) \<and>
     (\<forall>k. dict_get_default card_info ''zip'' [] \<noteq> [] \<and> 3 \<le> k \<and> k < n \<and>
          (\<forall>j. 3 \<le> j \<and> j < k \<longrightarrow>
             (\<exists>t. text_result env (clock s + 4 + j)
                     (GetAttribute (Nth (all_inputs frame) j) ''type'') = Inr t \<and>
                  t \<noteq> Some ''tel'')) \<and>
          (\<exists>t. text_result env (clock s + 4 + k)
                  (GetAttribute (Nth (all_inputs frame) k) ''type'') = Inr t \<and>
               (t = Some ''tel'' \<or> k = n - 1)) \<and>
          unit_result env (clock s + 5 + k) (Click (Nth (all_inputs frame) k)) = Inr () \<and>
          unit_result env (clock s + 6 + k)
            (Fill (Nth (all_inputs frame) k) (dict_get_default card_info ''zip'' [])) = Inr ()
        \<longrightarrow> zip_calls =
             map (\<lambda>j. GetAttribute (Nth (all_inputs frame) j) ''type'') [3 ..< Suc k] @
             [Click (Nth (all_inputs frame) k),
              Fill (Nth (all_inputs frame) k) (dict_get_default card_info ''zip'' [])])"
proof -
  let ?month = "dict_get_default card_info ''exp_month'' []"
  let ?year = "dict_get_default card_info ''exp_year'' []"
  let ?zip = "dict_get_default card_info ''zip'' []"
  let ?attr = "\<lambda>j. GetAttribute (Nth (all_inputs frame) j) ''type''"
  from assms obtain n s1 where
    a: "fill_card_number env frame card_info s = (Val n, s1)" and
    r1: "seq (fill_exp_date env frame card_info)
           (seq (fill_cvv env frame card_info) (fill_zip env frame card_info n)) s1 = (Val (), s')"
    unfolding card_entry_def by (erule bind_ValE)
  from r1 obtain u s2 where
    b: "fill_exp_date env frame card_info s1 = (Val u, s2)" and
    r2: "seq (fill_cvv env frame card_info) (fill_zip env frame card_info n) s2 = (Val (), s')"
    by (erule seq_ValE)
  from r2 obtain w s3 where
    c: "fill_cvv env frame card_info s2 = (Val w, s3)" and
    d: "fill_zip env frame card_info n s3 = (Val (), s')"
    by (erule seq_ValE)
  from fill_card_number_ValD [OF a] obtain number where
    n: "3 \<le> n" "count_result env (clock s) (Count (all_inputs frame)) = Inr n"
    "dict_get card_info ''number'' = Some number"
    "s1 = made (Fill (Nth (all_inputs frame) 0) number)
                   (made (Click (Nth (all_inputs frame) 0)) (made (Count (all_inputs frame)) s))"
    by blast
  from b have s2: "s2 = made (Fill (Nth (all_inputs frame) 1)
                    (fst (normalize_exp_parts ?month ?year) @
                     snd (normalize_exp_parts ?month ?year)))
                (made (Click (Nth (all_inputs frame) 1)) s1)"
    by (intro fill_exp_date_ValD) simp
  from c obtain cvv where
    cvv: "dict_get card_info ''cvv'' = Some cvv"
    "s3 = made (Fill (Nth (all_inputs frame) 2) cvv) (made (Click (Nth (all_inputs frame) 2)) s2)"
    using fill_cvv_ValD [of env frame card_info s2 s3] by auto
  have k3: "clock s3 = clock s + 7" using n(4) s2 cvv(2) by simp
  have t3: "trace s3 = trace s @
       [Count (all_inputs frame),
        Click (Nth (all_inputs frame) 0), Fill (Nth (all_inputs frame) 0) number,
        Click (Nth (all_inputs frame) 1),
        Fill (Nth (all_inputs frame) 1)
          (fst (normalize_exp_parts ?month ?year) @ snd (normalize_exp_parts ?month ?year)),
        Click (Nth (all_inputs frame) 2), Fill (Nth (all_inputs frame) 2) cvv]"
    using n(4) s2 cvv(2) by simp
  have at: "\<And>i. 3 \<le> i \<Longrightarrow> clock s3 + (i - 3) = clock s + 4 + i"
    using k3 by simp
  have ct: "\<And>i. 3 \<le> i \<Longrightarrow> Suc (clock s3 + (i - 3)) = clock s + 5 + i"
    using k3 by simp
  have ft: "\<And>i. 3 \<le> i \<Longrightarrow> Suc (Suc (clock s3 + (i - 3))) = clock s + 6 + i"
    using k3 by simp
  from fill_zip_exact [OF d] obtain zip_calls where
    z1: "trace s' = trace s3 @ zip_calls" and
    z2: "?zip = [] \<or> n \<le> 3 \<longrightarrow> zip_calls = []" and
    z3: "\<forall>l v. Fill l v \<in> set zip_calls \<longrightarrow>
        (\<exists>i. 3 \<le> i \<and> i < n \<and> l = Nth (all_inputs frame) i \<and> v = ?zip \<and> v \<noteq> [] \<and>
           zip_calls = map ?attr [3 ..< Suc i] @
                   [Click (Nth (all_inputs frame) i), Fill (Nth (all_inputs frame) i) ?zip] \<and>
           (i = n - 1 \<or> text_result env (clock s3 + (i - 3)) (?attr i) = Inr (Some ''tel'')) \<and>
           (\<forall>j. 3 \<le> j \<and> j < i \<longrightarrow>
              text_result env (clock s3 + (j - 3)) (?attr j) \<noteq> Inr (Some ''tel'')))"
    by blast
  have p1: "trace s' = trace s @
       [Count (all_inputs frame),
        Click (Nth (all_inputs frame) 0), Fill (Nth (all_inputs frame) 0) number,
        Click (Nth (all_inputs frame) 1),
        Fill (Nth (all_inputs frame) 1)
          (fst (normalize_exp_parts ?month ?year) @ snd (normalize_exp_parts ?month ?year)),
        Click (Nth (all_inputs frame) 2), Fill (Nth (all_inputs frame) 2) cvv] @ zip_calls"
    using z1 t3 by simp
  have p2: "(length (digits_of ?month) = 1 \<or> length (digits_of ?month) = 2) \<and>
      (length (digits_of ?year) = 1 \<or> length (digits_of ?year) = 2 \<or>
       4 \<le> length (digits_of ?year)) \<longrightarrow>
      length (fst (normalize_exp_parts ?month ?year)) = 2 \<and>
      length (snd (normalize_exp_parts ?month ?year)) = 2"
    using normalize_two_digits [of ?month ?year] by blast
  have p3: "?zip = [] \<or> n = 3 \<longrightarrow> zip_calls = []"
    using z2 by auto
  have p4: "\<forall>l v. Fill l v \<in> set zip_calls \<longrightarrow>
        (\<exists>i. 3 \<le> i \<and> i < n \<and> l = Nth (all_inputs frame) i \<and> v = ?zip \<and> v \<noteq> [] \<and>
           zip_calls = map ?attr [3 ..< Suc i] @
                   [Click (Nth (all_inputs frame) i), Fill (Nth (all_inputs frame) i) ?zip] \<and>
           (i = n - 1 \<or> text_result env (clock s + 4 + i) (?attr i) = Inr (Some ''tel'')) \<and>
           (\<forall>j. 3 \<le> j \<and> j < i \<longrightarrow>
              text_result env (clock s + 4 + j) (?attr j) \<noteq> Inr (Some ''tel'')))"
  proof (intro allI impI)
    fix l v
    assume "Fill l v \<in> set zip_calls"
    with z3 obtain i where
      i: "3 \<le> i" "i < n" "l = Nth (all_inputs frame) i" "v = ?zip" "v \<noteq> []"
        "zip_calls = map ?attr [3 ..< Suc i] @
                   [Click (Nth (all_inputs frame) i), Fill (Nth (all_inputs frame) i) ?zip]"
        "i = n - 1 \<or> text_result env (clock s3 + (i - 3)) (?attr i) = Inr (Some ''tel'')"
        "\<forall>j. 3 \<le> j \<and> j < i \<longrightarrow>
              text_result env (clock s3 + (j - 3)) (?attr j) \<noteq> Inr (Some ''tel'')"
      by blast
    have i7: "i = n - 1 \<or> text_result env (clock s + 4 + i) (?attr i) = Inr (Some ''tel'')"
      using i(7) unfolding at [OF i(1)] .
    have i8: "\<forall>j. 3 \<le> j \<and> j < i \<longrightarrow>
              text_result env (clock s + 4 + j) (?attr j) \<noteq> Inr (Some ''tel'')"
    proof (intro allI impI)
      fix j
      assume j: "3 \<le> j \<and> j < i"
      then have j3: "3 \<le> j" by simp
      from i(8) j have "text_result env (clock s3 + (j - 3)) (?attr j) \<noteq> Inr (Some ''tel'')"
        by blast
      then show "text_result env (clock s + 4 + j) (?attr j) \<noteq> Inr (Some ''tel'')"
        unfolding at [OF j3] .
    qed
    from i(1-6) i7 i8
    show "\<exists>i. 3 \<le> i \<and> i < n \<and> l = Nth (all_inputs frame) i \<and> v = ?zip \<and> v \<noteq> [] \<and>
           zip_calls = map ?attr [3 ..< Suc i] @
                   [Click (Nth (all_inputs frame) i), Fill (Nth (all_inputs frame) i) ?zip] \<and>
           (i = n - 1 \<or> text_result env (clock s + 4 + i) (?attr i) = Inr (Some ''tel'')) \<and>
           (\<forall>j. 3 \<le> j \<and> j < i \<longrightarrow>
              text_result env (clock s + 4 + j) (?attr j) \<noteq> Inr (Some ''tel''))"
      by blast
  qed
  have p5: "\<forall>k. ?zip \<noteq> [] \<and> 3 \<le> k \<and> k < n \<and>
          (\<forall>j. 3 \<le> j \<and> j < k \<longrightarrow>
             (\<exists>t. text_result env (clock s + 4 + j) (?attr j) = Inr t \<and> t \<noteq> Some ''tel'')) \<and>
          (\<exists>t. text_result env (clock s + 4 + k) (?attr k) = Inr t \<and>
               (t = Some ''tel'' \<or> k = n - 1)) \<and>
          unit_result env (clock s + 5 + k) (Click (Nth (all_inputs frame) k)) = Inr () \<and>
          unit_result env (clock s + 6 + k) (Fill (Nth (all_inputs frame) k) ?zip) = Inr ()
        \<longrightarrow> zip_calls = map ?attr [3 ..< Suc k] @
             [Click (Nth (all_inputs frame) k), Fill (Nth (all_inputs frame) k) ?zip]"
  proof (intro allI impI)
    fix k
    assume h: "?zip \<noteq> [] \<and> 3 \<le> k \<and> k < n \<and>
          (\<forall>j. 3 \<le> j \<and> j < k \<longrightarrow>
             (\<exists>t. text_result env (clock s + 4 + j) (?attr j) = Inr t \<and> t \<noteq> Some ''tel'')) \<and>
          (\<exists>t. text_result env (clock s + 4 + k) (?attr k) = Inr t \<and>
               (t = Some ''tel'' \<or> k = n - 1)) \<and>
          unit_result env (clock s + 5 + k) (Click (Nth (all_inputs frame) k)) = Inr () \<and>
          unit_result env (clock s + 6 + k) (Fill (Nth (all_inputs frame) k) ?zip) = Inr ()"
    then have k: "3 \<le> k" "k < n" and zne: "?zip \<noteq> []" by auto
    have e: "\<forall>j. 3 \<le> j \<and> j < k \<longrightarrow>
           (\<exists>t. text_result env (clock s3 + (j - 3)) (?attr j) = Inr t \<and> t \<noteq> Some ''tel'')"
    proof (intro allI impI)
      fix j
      assume j: "3 \<le> j \<and> j < k"
      then have j3: "3 \<le> j" by simp
      from h j
      have x: "\<exists>t. text_result env (clock s + 4 + j) (?attr j) = Inr t \<and> t \<noteq> Some ''tel''"
        by blast
      show "\<exists>t. text_result env (clock s3 + (j - 3)) (?attr j) = Inr t \<and>
          t \<noteq> Some ''tel''"
        unfolding at [OF j3] by (rule x)
    qed
    have f: "\<exists>t. text_result env (clock s3 + (k - 3)) (?attr k) = Inr t \<and>
               (t = Some ''tel'' \<or> k = n - 1)"
      unfolding at [OF k(1)] using h by blast
    have g: "unit_result env (Suc (clock s3 + (k - 3))) (Click (Nth (all_inputs frame) k))
             = Inr ()"
      unfolding ct [OF k(1)] using h by blast
    have i: "unit_result env (Suc (Suc (clock s3 + (k - 3))))
               (Fill (Nth (all_inputs frame) k) ?zip) = Inr ()"
      unfolding ft [OF k(1)] using h by blast
    from fill_zip_hit [OF zne k e f g i] obtain s'' where
      "fill_zip env frame card_info n s3 = (Val (), s'')"
      "trace s'' = trace s3 @ map ?attr [3 ..< Suc k] @
             [Click (Nth (all_inputs frame) k), Fill (Nth (all_inputs frame) k) ?zip]"
      by blast
    with d z1 show "zip_calls = map ?attr [3 ..< Suc k] @
             [Click (Nth (all_inputs frame) k), Fill (Nth (all_inputs frame) k) ?zip]"
      by simp
  qed
  from n(1,2,3) cvv(1) p1 p2 p3 p4 p5 show ?thesis by blast
qed

text \<open>
  The theorem in the environment with six input boxes, the one at index 4 of type
  \<open>tel\<close>: the stage runs to its end, the month and year filled are \<open>03\<close> and \<open>25\<close>,
  and the postal code goes to input 4, after the queries of inputs 3 and 4; the last
  input is left alone.
\<close>

theorem card_entry_fields_witness:
  "fst (card_entry env_tel form_frame test_card init) = Val ()
   \<and> trace (snd (card_entry env_tel form_frame test_card init)) =
         [Count (all_inputs form_frame),
          Click (Nth (all_inputs form_frame) 0),
          Fill (Nth (all_inputs form_frame) 0) ''4111111111111111'',
          Click (Nth (all_inputs form_frame) 1),
          Fill (Nth (all_inputs form_frame) 1) ''0325'',
          Click (Nth (all_inputs form_frame) 2),
          Fill (Nth (all_inputs form_frame) 2) ''123'',
          GetAttribute (Nth (all_inputs form_frame) 3) ''type'',
          GetAttribute (Nth (all_inputs form_frame) 4) ''type'',
          Click (Nth (all_inputs form_frame) 4),
          Fill (Nth (all_inputs form_frame) 4) ''10001'']"
proof -
  let ?attr = "\<lambda>j. GetAttribute (Nth (all_inputs form_frame) j) ''type''"
  have v: "fst (card_entry env_tel form_frame test_card init) = Val ()"
  proof -
    have n: "normalize_exp_parts ''25'' ''03'' = (''03'', ''25'')" by code_simp
    have u: "[3 ..< 6] = [3, 4, 5::nat]" by (simp add: upt_rec)
    show ?thesis
      by (simp add: card_entry_def fill_card_number_def fill_exp_date_def fill_cvv_def
          fill_zip_def prog_defs env_tel_def env_defs all_inputs_def test_card_def Let_def n u)
  qed
  then have a: "card_entry env_tel form_frame test_card init
           = (Val (), snd (card_entry env_tel form_frame test_card init))"
    by (rule pair_fstI)
  from card_entry_fields [OF a] obtain number cvv n zip_calls where
    f: "dict_get test_card ''number'' = Some number" "dict_get test_card ''cvv'' = Some cvv"
      "count_result env_tel (clock init) (Count (all_inputs form_frame)) = Inr n"
    and t: "trace (snd (card_entry env_tel form_frame test_card init)) = trace init @
       [Count (all_inputs form_frame),
        Click (Nth (all_inputs form_frame) 0), Fill (Nth (all_inputs form_frame) 0) number,
        Click (Nth (all_inputs form_frame) 1),
        Fill (Nth (all_inputs form_frame) 1)
          (fst (normalize_exp_parts (dict_get_default test_card ''exp_month'' [])
                                    (dict_get_default test_card ''exp_year'' [])) @
           snd (normalize_exp_parts (dict_get_default test_card ''exp_month'' [])
                                    (dict_get_default test_card ''exp_year'' []))),
        Click (Nth (all_inputs form_frame) 2), Fill (Nth (all_inputs form_frame) 2) cvv]
       @ zip_calls"
    and h: "\<forall>k. dict_get_default test_card ''zip'' [] \<noteq> [] \<and> 3 \<le> k \<and> k < n \<and>
          (\<forall>j. 3 \<le> j \<and> j < k \<longrightarrow>
             (\<exists>t. text_result env_tel (clock init + 4 + j) (?attr j) = Inr t \<and>
                  t \<noteq> Some ''tel'')) \<and>
          (\<exists>t. text_result env_tel (clock init + 4 + k) (?attr k) = Inr t \<and>
               (t = Some ''tel'' \<or> k = n - 1)) \<and>
          unit_result env_tel (clock init + 5 + k) (Click (Nth (all_inputs form_frame) k))
            = Inr () \<and>
          unit_result env_tel (clock init + 6 + k)
            (Fill (Nth (all_inputs form_frame) k) (dict_get_default test_card ''zip'' []))
            = Inr ()
        \<longrightarrow> zip_calls = map ?attr [3 ..< Suc k] @
             [Click (Nth (all_inputs form_frame) k),
              Fill (Nth (all_inputs form_frame) k) (dict_get_default test_card ''zip'' [])]"
    by blast
  from f have c: "number = ''4111111111111111''" "cvv = ''123''" "n = 6"
    by (simp_all add: dict_get_def test_card_def env_tel_def env_defs)
  have z: "dict_get_default test_card ''zip'' [] = ''10001''"
    and m: "dict_get_default test_card ''exp_month'' [] = ''25''"
    and y: "dict_get_default test_card ''exp_year'' [] = ''03''"
    by (simp_all add: dict_get_default_def test_card_def)
  have norm: "normalize_exp_parts ''25'' ''03'' = (''03'', ''25'')" by code_simp
  have "dict_get_default test_card ''zip'' [] \<noteq> [] \<and> 3 \<le> (4::nat) \<and> 4 < n \<and>
          (\<forall>j. 3 \<le> j \<and> j < 4 \<longrightarrow>
             (\<exists>t. text_result env_tel (clock init + 4 + j) (?attr j) = Inr t \<and>
                  t \<noteq> Some ''tel'')) \<and>
          (\<exists>t. text_result env_tel (clock init + 4 + 4) (?attr 4) = Inr t \<and>
               (t = Some ''tel'' \<or> 4 = n - 1)) \<and>
          unit_result env_tel (clock init + 5 + 4) (Click (Nth (all_inputs form_frame) 4))
            = Inr () \<and>
          unit_result env_tel (clock init + 6 + 4)
            (Fill (Nth (all_inputs form_frame) 4) (dict_get_default test_card ''zip'' []))
            = Inr ()"
    by (simp add: z c env_tel_def env_defs)
  with h have "zip_calls = map ?attr [3 ..< Suc 4] @
             [Click (Nth (all_inputs form_frame) 4),
              Fill (Nth (all_inputs form_frame) 4) (dict_get_default test_card ''zip'' [])]"
    by blast
  then have "zip_calls = [?attr 3, ?attr 4, Click (Nth (all_inputs form_frame) 4),
      Fill (Nth (all_inputs form_frame) 4) ''10001'']"
    by (simp add: z upt_rec)
  with t v show ?thesis
    by (simp add: c m y norm init_def)
qed

text \<open>
  As the claim states it, input 1 is filled with a two-digit month followed by a
  two-digit year. With the month \<open>123\<close> and the year \<open>2026\<close> the month is left as it
  is and the year cut to \<open>26\<close>: input 1 is filled with the five characters \<open>12326\<close>.
\<close>

theorem long_month_counterexample:
  "normalize_exp_parts ''123'' ''2026'' = (''123'', ''26'')
   \<and> card_entry (env_form 3) form_frame long_month_card init
     = (Val (),
        \<lparr>clock = 7,
         trace =
           [Count (all_inputs form_frame),
            Click (Nth (all_inputs form_frame) 0),
            Fill (Nth (all_inputs form_frame) 0) ''4111111111111111'',
            Click (Nth (all_inputs form_frame) 1),
            Fill (Nth (all_inputs form_frame) 1) ''12326'',
            Click (Nth (all_inputs form_frame) 2),
            Fill (Nth (all_inputs form_frame) 2) ''123'']\<rparr>)"
proof -
  have n: "normalize_exp_parts ''123'' ''2026'' = (''123'', ''26'')" by code_simp
  then show ?thesis
    by (simp add: card_entry_def fill_card_number_def fill_exp_date_def fill_cvv_def
        fill_zip_def prog_defs made_def env_defs all_inputs_def long_month_card_def init_def
        Let_def)
qed

section \<open>The card-entry stage\<close>

lemma fill_card_number_few:
  assumes "count_result env (clock s) (Count (all_inputs card_form_frame)) = Inr n" and "n < 3"
  shows "fill_card_number env card_form_frame card_info s
         = (Ret (False, TooFewInputs n), made (Count (all_inputs card_form_frame)) s)"
  using assms
  by (simp add: fill_card_number_def try_except_def bind_def count_def perform_def
      early_return_def)

text \<open>
  Claim C7. In a run that reaches the card form, when the count of the input elements
  of the card-entry frame is \<open>n < 3\<close>, \<open>auto_bind_card\<close> returns
  \<open>(False, TooFewInputs n)\<close>, and the count is the last call of the run: no input is
  clicked or filled, and nothing is tried again.
\<close>

theorem too_few_inputs:
  assumes "before_card_entry env (effective_card env card_info) account_info s0 = (Val frame, s)"
    and "count_result env (clock s) (Count (all_inputs frame)) = Inr n"
    and "n < 3"
  shows "auto_bind_card env card_info account_info s0
         = (Val (Some (False, TooFewInputs n)), made (Count (all_inputs frame)) s)"
proof -
  have "card_entry env frame (effective_card env card_info) s
        = (Ret (False, TooFewInputs n), made (Count (all_inputs frame)) s)"
    unfolding card_entry_def
    by (rule bind_Ret) (rule fill_card_number_few [OF assms(2,3)])
  then have "through_save env (effective_card env card_info) account_info s0
        = (Ret (False, TooFewInputs n), made (Count (all_inputs frame)) s)"
    using assms(1) by (simp add: through_save_def bind_def seq_def)
  then show ?thesis
    unfolding auto_bind_card_def
    by (intro call_fn_Ret try_except_Ret seq_Ret)
qed

text \<open>
  The theorem in the environment with two input boxes, run with the default card: the
  run reaches the card form, counts two inputs and stops.
\<close>

theorem too_few_inputs_witness:
  "before_card_entry (env_form 2) test_card None init
     = (Val form_frame, at_card_form (env_form 2) None)
   \<and> count_result (env_form 2) (clock (at_card_form (env_form 2) None))
        (Count (all_inputs form_frame)) = Inr 2
   \<and> auto_bind_card (env_form 2) None None init
     = (Val (Some (False, TooFewInputs 2)),
        made (Count (all_inputs form_frame)) (at_card_form (env_form 2) None))"
proof -
  have c: "effective_card (env_form 2) None = test_card"
    by (simp add: effective_card_def env_form_def static_env_def)
  have a: "before_card_entry (env_form 2) test_card None init
           = (Val form_frame, at_card_form (env_form 2) None)"
    unfolding at_card_form_def by (rule pair_fstI) (rule form_before_card_entry)
  have b: "count_result (env_form 2) (clock (at_card_form (env_form 2) None))
        (Count (all_inputs form_frame)) = Inr 2"
    by (simp add: env_form_def static_env_def count_form_def)
  have "auto_bind_card (env_form 2) None None init
     = (Val (Some (False, TooFewInputs 2)),
        made (Count (all_inputs form_frame)) (at_card_form (env_form 2) None))"
    by (rule too_few_inputs [OF _ b]) (simp_all add: c a)
  with a b show ?thesis by simp
qed

section \<open>Login\<close>







section \<open>The session: what its calls leave unchanged\<close>

lemma preserves_sys_perform:
  "(\<And>s. obs (sys_made c s) = obs s) \<Longrightarrow> preserves obs (sys_perform answer c)"
  by (simp add: preserves_def sys_perform_def)

lemma preserves_lift: "(\<And>s p. obs (s\<lparr>pg := p\<rparr>) = obs s) \<Longrightarrow> preserves obs (lift m)"
  by (auto simp: preserves_def lift_def split: prod.splits)

lemma close_calls_sys_made: "\<not> is_close c \<Longrightarrow> close_calls (sys_made c s) = close_calls s"
  by (simp add: close_calls_def sys_made_def)


lemma lift_keeps_closes: "preserves close_calls (lift m)"
  by (rule preserves_lift) (simp add: close_calls_def)


lemma sys_calls_keep_closes:
  "preserves close_calls (get_browser_info env browser_id)"
  "preserves close_calls (openBrowser env browser_id)"
  "preserves close_calls (connect_over_cdp env ws_endpoint)"
  "preserves close_calls (contexts env)"
  "preserves close_calls (pages env)"
  "preserves close_calls (new_page env)"
  "preserves close_calls (goto env target)"
  "preserves close_calls (browser_close env)"
  "preserves close_calls (open_append env path encoding)"
  "preserves close_calls (now env)"
  "preserves close_calls (write_line env line)"
  "preserves close_calls (sys_perform (sys_unit_result env) PlaywrightStart)"
  "preserves close_calls (sys_perform (sys_unit_result env) PlaywrightStop)"
  unfolding get_browser_info_def openBrowser_def connect_over_cdp_def contexts_def pages_def
    new_page_def goto_def browser_close_def open_append_def now_def write_line_def
  by (rule preserves_sys_perform, simp add: close_calls_sys_made is_close_def)+


lemma first_page_keeps_closes: "preserves close_calls (first_page env)"
  unfolding first_page_def by (intro preserves_intros sys_calls_keep_closes)


lemma session_body_keeps_closes:
  "preserves close_calls (session_body env card_info account_info)"
  unfolding session_body_def record_bind_def
  by (intro preserves_intros sys_calls_keep_closes first_page_keeps_closes lift_keeps_closes)

text \<open>Nothing inside the outer \<open>try\<close> of \<open>bind_card_sync\<close> calls \<open>closeBrowser\<close>.\<close>

lemma guarded_keeps_closes:
  "preserves close_calls
     (try_except
        (with_playwright env
           (seq (connect_over_cdp env ws_endpoint)
              (try_finally (session_body env card_info account_info)
                 (try_except (browser_close env) (\<lambda>e. ret ())))))
        (\<lambda>e. early_return (False, BindError e)))"
  unfolding with_playwright_def
  by (intro preserves_intros sys_calls_keep_closes session_body_keeps_closes)

text \<open>\<open>test_bind_card_with_browser\<close> does not call \<open>closeBrowser\<close>.\<close>

lemma account_for_test_keeps_closes:
  "preserves close_calls (account_for_test env browser_id account_info)"
  unfolding account_for_test_def
  by (intro preserves_intros sys_calls_keep_closes)

lemma test_bind_card_keeps_closes:
  "preserves close_calls (test_bind_card_with_browser env browser_id account_info)"
  unfolding test_bind_card_with_browser_def with_playwright_def
  by (intro preserves_intros sys_calls_keep_closes first_page_keeps_closes lift_keeps_closes
      account_for_test_keeps_closes)

text \<open>A \<open>finally\<close> clause that appends \<open>xs\<close> to an observation the body leaves as it is.\<close>

lemma try_finally_appends:
  assumes "preserves obs m"
    and "\<And>s r s'. f s = (r, s') \<Longrightarrow> obs s' = obs s @ xs"
    and "try_finally m f s = (r, s')"
  shows "obs s' = obs s @ xs"
proof (cases "m s")
  case (Pair r1 s1)
  with assms(1) have a: "obs s1 = obs s" by (simp add: preserves_def)
  obtain r2 s2 where f: "f s1 = (r2, s2)" by (cases "f s1")
  with assms(3) Pair have "s' = s2"
    by (cases r2) (simp_all add: try_finally_def)
  with assms(2) [OF f] a show ?thesis by simp
qed

lemma closeBrowser_appends:
  "closeBrowser env browser_id s = (r, s') \<Longrightarrow>
   close_calls s' = close_calls s @ [CloseBrowser browser_id]"
  by (auto simp: closeBrowser_def sys_perform_def close_calls_def sys_made_def is_close_def)

section \<open>The session: where a line is written to the file of bound cards\<close>















section \<open>The session in the example environments\<close>

lemma remark_parts:
  "split_from ''----'' [] ''a@x.com----pw----rec----JBSW'' = [''a@x.com'', ''pw'', ''rec'', ''JBSW'']"
  by code_simp

lemma remark_account: "account_of_remark ''a@x.com----pw----rec----JBSW'' = test_account"
  unfolding account_of_remark_def remark_parts Let_def test_account_def part_or_empty_def
  by code_simp

lemma lift_eq: "lift m s = (fst (m (pg s)), s\<lparr>pg := snd (m (pg s))\<rparr>)"
  by (simp add: lift_def split: prod.splits)

lemmas sys_defs =
  get_browser_info_def openBrowser_def closeBrowser_def connect_over_cdp_def contexts_def
  pages_def new_page_def goto_def browser_close_def open_append_def now_def write_line_def
  with_playwright_def record_bind_def first_page_def session_body_def sys_perform_def
  sys_made_def lift_eq ret_def raise_def early_return_def bind_def seq_def try_except_def
  try_finally_def call_fn_def sleep_def dict_get_default_def



lemma default_card_form: "effective_card (env_form 4) None = test_card"
  by (simp add: effective_card_def env_form_def static_env_def)

lemma session_test_result:
  "fst (test_bind_card_with_browser env_session ''b1'' None sys_init)
   = Val (Some (True, SubscribedAssumed))"
  by (simp add: test_bind_card_with_browser_def account_for_test_def sys_defs env_session_def
      sys_init_def init_def ws_b1_def remark_account remark_parts
      form_auto_bind_card [OF default_card_form] Let_def)

lemma session_test_trace:
  "sys_trace (snd (test_bind_card_with_browser env_session ''b1'' None sys_init))
   = [GetBrowserInfo ''b1'', OpenBrowser ''b1'', PlaywrightStart, ConnectOverCdp ws_b1,
      Contexts, Pages, Pages, Goto target_url, PlaywrightStop]"
  by (simp add: test_bind_card_with_browser_def account_for_test_def sys_defs env_session_def
      sys_init_def init_def ws_b1_def remark_account remark_parts
      form_auto_bind_card [OF default_card_form] Let_def)

lemma no_cdp_test_run:
  "test_bind_card_with_browser env_no_cdp ''b1'' None sys_init
   = (Val (Some (False, TestError (Exn ''Error: connect ECONNREFUSED''))),
      \<lparr>pg = \<lparr>clock = 5, trace = []\<rparr>,
       sys_trace = [GetBrowserInfo ''b1'', OpenBrowser ''b1'', PlaywrightStart,
                    ConnectOverCdp ws_b1, PlaywrightStop]\<rparr>)"
  by (simp add: test_bind_card_with_browser_def account_for_test_def sys_defs env_no_cdp_def
      env_session_def sys_init_def init_def ws_b1_def remark_account remark_parts Let_def)

section \<open>Release of the browser session\<close>

lemma close_after_appends:
  "(if close_after then closeBrowser env browser_id else ret ()) s = (r, s') \<Longrightarrow>
   close_calls s' = close_calls s @ (if close_after then [CloseBrowser browser_id] else [])"
  by (auto simp: ret_def dest: closeBrowser_appends)

lemma guarded_closes:
  assumes "try_finally
     (try_except
        (with_playwright env
           (seq (connect_over_cdp env ws_endpoint)
              (try_finally (session_body env card_info account_info)
                 (try_except (browser_close env) (\<lambda>e. ret ())))))
        (\<lambda>e. early_return (False, BindError e)))
     (if close_after then closeBrowser env browser_id else ret ()) s = (r, s')"
  shows "close_calls s' = close_calls s @ (if close_after then [CloseBrowser browser_id] else [])"
  using guarded_keeps_closes close_after_appends assms by (rule try_finally_appends)

lemma no_endpoint_closes:
  assumes "seq (closeBrowser env browser_id) (early_return (False, NoWsEndpoint)) s = (r, s')"
  shows "close_calls s' = close_calls s @ [CloseBrowser browser_id]"
  using assms
  by (auto simp: seq_def bind_def early_return_def split: prod.splits res.splits
      dest: closeBrowser_appends)

lemma bind_card_sync_closes:
  assumes "bind_card_sync env browser_id card_info close_after s = (r, s')"
  shows "close_calls s' = close_calls s @
       (case open_reply_at env browser_id s of
          None \<Rightarrow> []
        | Some res \<Rightarrow>
            if close_after \<or> open_ws res = None \<or> open_ws res = Some []
            then [CloseBrowser browser_id] else [])"
proof -
  let ?s1 = "sys_made (GetBrowserInfo browser_id) s"
  let ?s2 = "sys_made (OpenBrowser browser_id) ?s1"
  have c1: "close_calls ?s1 = close_calls s" and c2: "close_calls ?s2 = close_calls s"
    by (simp_all add: close_calls_sys_made is_close_def)
  have k: "clock (pg ?s1) = Suc (clock (pg s))" by (simp add: sys_made_def)
  show ?thesis
  proof (cases "open_reply_at env browser_id s")
    case None
    with assms have "s' = ?s1 \<or> s' = ?s2"
      unfolding bind_card_sync_def Let_def
      by (auto simp: call_fn_def bind_def get_browser_info_def openBrowser_def sys_perform_def
          early_return_def open_reply_at_def k
          split: sum.splits option.splits if_splits)
    with None c1 c2 show ?thesis by auto
  next
    case (Some res)
    then obtain info where
      i: "info_result env (clock (pg s)) (GetBrowserInfo browser_id) = Inr (Some info)"
        "info \<noteq> []"
        "open_result env (Suc (clock (pg s))) (OpenBrowser browser_id) = Inr res"
        "open_success res"
      by (auto simp: open_reply_at_def split: sum.splits option.splits if_splits)
    show ?thesis
    proof (cases "open_ws res = None \<or> open_ws res = Some []")
      case True
      with assms i obtain r' :: "unit res" where
        "seq (closeBrowser env browser_id) (early_return (False, NoWsEndpoint)) ?s2 = (r', s')"
        unfolding bind_card_sync_def Let_def
        by (auto simp: call_fn_def bind_def get_browser_info_def openBrowser_def
            sys_perform_def k split: prod.splits res.splits)
      from no_endpoint_closes [OF this] Some True c2 show ?thesis by auto
    next
      case False
      then obtain ws_endpoint where w: "open_ws res = Some ws_endpoint" "ws_endpoint \<noteq> []"
        by auto
      with assms i obtain r' :: "unit res" where
        "try_finally
           (try_except
              (with_playwright env
                 (seq (connect_over_cdp env ws_endpoint)
                    (try_finally
                       (session_body env card_info
                          (account_of_remark (dict_get_default info ''remark'' [])))
                       (try_except (browser_close env) (\<lambda>e. ret ())))))
              (\<lambda>e. early_return (False, BindError e)))
           (if close_after then closeBrowser env browser_id else ret ()) ?s2 = (r', s')"
        unfolding bind_card_sync_def Let_def
        by (auto simp: call_fn_def bind_def get_browser_info_def openBrowser_def
            sys_perform_def k split: prod.splits res.splits)
      from guarded_closes [OF this] Some False c2 show ?thesis by auto
    qed
  qed
qed

text \<open>
  Claim C3, as the code has it. In \<open>bind_card_sync\<close>, on every exit path, whatever
  the result: when the run got a browser session (the window is known and
  \<open>openBrowser\<close> answered with \<open>success\<close>), \<open>closeBrowser\<close> is called exactly once if
  \<open>close_after\<close> is set or the reply holds no endpoint, and not at all otherwise; when
  it got none, \<open>closeBrowser\<close> is not called. \<open>test_bind_card_with_browser\<close> has no
  such flag and calls \<open>closeBrowser\<close> on no path: it leaves the browser open.
\<close>

theorem session_release:
  "(bind_card_sync env browser_id card_info close_after s = (r, s') \<longrightarrow>
      close_calls s' = close_calls s @
        (case open_reply_at env browser_id s of
           None \<Rightarrow> []
         | Some res \<Rightarrow>
             if close_after \<or> open_ws res = None \<or> open_ws res = Some []
             then [CloseBrowser browser_id] else []))
   \<and> (test_bind_card_with_browser env browser_id account_info t = (r', t') \<longrightarrow>
        close_calls t' = close_calls t)"
  using bind_card_sync_closes [of env browser_id card_info close_after s r s']
    test_bind_card_keeps_closes [of env browser_id account_info]
  by (simp add: preserves_def)

text \<open>
  The theorem in the session in which every call goes through: the run gets a browser
  session; with \<open>close_after\<close> set \<open>bind_card_sync\<close> calls \<open>closeBrowser\<close> once, with
  \<open>close_after\<close> unset it does not call it, and \<open>test_bind_card_with_browser\<close> does
  not call it.
\<close>

theorem session_release_witness:
  "open_reply_at env_session ''b1'' sys_init
     = Some \<lparr>open_success = True, open_ws = Some ws_b1\<rparr>
   \<and> close_calls (snd (bind_card_sync env_session ''b1'' None True sys_init))
     = [CloseBrowser ''b1'']
   \<and> close_calls (snd (bind_card_sync env_session ''b1'' None False sys_init)) = []
   \<and> close_calls (snd (test_bind_card_with_browser env_session ''b1'' None sys_init)) = []"
proof -
  have o: "open_reply_at env_session ''b1'' sys_init
           = Some \<lparr>open_success = True, open_ws = Some ws_b1\<rparr>"
    by (simp add: open_reply_at_def env_session_def)
  have w: "ws_b1 \<noteq> []" by (simp add: ws_b1_def)
  have z: "close_calls sys_init = []" by (simp add: close_calls_def sys_init_def)
  note a = session_release [where env = env_session and browser_id = "''b1''"
      and card_info = None and close_after = True and s = sys_init
      and r = "fst (bind_card_sync env_session ''b1'' None True sys_init)"
      and s' = "snd (bind_card_sync env_session ''b1'' None True sys_init)",
      THEN conjunct1, THEN mp, OF prod.collapse [symmetric]]
  note b = session_release [where env = env_session and browser_id = "''b1''"
      and card_info = None and close_after = False and s = sys_init
      and r = "fst (bind_card_sync env_session ''b1'' None False sys_init)"
      and s' = "snd (bind_card_sync env_session ''b1'' None False sys_init)",
      THEN conjunct1, THEN mp, OF prod.collapse [symmetric]]
  note c = session_release [where env = env_session and browser_id = "''b1''"
      and account_info = None and t = sys_init
      and r' = "fst (test_bind_card_with_browser env_session ''b1'' None sys_init)"
      and t' = "snd (test_bind_card_with_browser env_session ''b1'' None sys_init)",
      THEN conjunct2, THEN mp, OF prod.collapse [symmetric]]
  from a b c o w z show ?thesis by simp
qed

text \<open>
  As the claim states it, every run that got a session through \<open>openBrowser\<close>
  releases it. In the same session \<open>test_bind_card_with_browser\<close> gets the session,
  binds the card and returns, and its calls hold no \<open>closeBrowser\<close>; and when the
  connection to the endpoint is refused it returns the failure, again with no
  \<open>closeBrowser\<close>.
\<close>

theorem session_left_open_counterexample:
  "open_result env_session 1 (OpenBrowser ''b1'')
     = Inr \<lparr>open_success = True, open_ws = Some ws_b1\<rparr>
   \<and> fst (test_bind_card_with_browser env_session ''b1'' None sys_init)
     = Val (Some (True, SubscribedAssumed))
   \<and> sys_trace (snd (test_bind_card_with_browser env_session ''b1'' None sys_init))
     = [GetBrowserInfo ''b1'', OpenBrowser ''b1'', PlaywrightStart, ConnectOverCdp ws_b1,
        Contexts, Pages, Pages, Goto target_url, PlaywrightStop]
   \<and> test_bind_card_with_browser env_no_cdp ''b1'' None sys_init
     = (Val (Some (False, TestError (Exn ''Error: connect ECONNREFUSED''))),
        \<lparr>pg = \<lparr>clock = 5, trace = []\<rparr>,
         sys_trace = [GetBrowserInfo ''b1'', OpenBrowser ''b1'', PlaywrightStart,
                      ConnectOverCdp ws_b1, PlaywrightStop]\<rparr>)"
proof -
  have "open_result env_session 1 (OpenBrowser ''b1'')
        = Inr \<lparr>open_success = True, open_ws = Some ws_b1\<rparr>"
    by (simp add: env_session_def)
  with session_test_result session_test_trace no_cdp_test_run show ?thesis by simp
qed

section \<open>The file of bound cards\<close>





end
